theory Spec2Isabelle
  imports Main "HOL-Library.Word"
begin

unbundle bit_operations_syntax

section \<open>Data model of memory-windows.cpp\<close>

text \<open>
  The file is the Windows backend of Silo. On 64-bit Windows \<open>size_t\<close> and \<open>void*\<close> are
  64 bits wide, \<open>uint32_t\<close> and \<open>DWORD\<close> are 32 bits wide, and all unsigned arithmetic wraps
  around. A pointer is modelled by its address; \<open>NULL\<close> is address 0.
\<close>

type_synonym size_t = "64 word"
type_synonym uint32_t = "32 word"
type_synonym int32_t = "32 word"
type_synonym DWORD = "32 word"
type_synonym pointer = "64 word"

abbreviation (input) NULL :: pointer where
  "NULL \<equiv> 0"

text \<open>
  \<open>SSiloMemorySpec\<close> (one requested piece; the code reads and writes its fields \<open>size\<close> and
  \<open>numaNode\<close>) and \<open>SSiloAllocationSpec\<close> (one recorded piece; fields \<open>ptr\<close> and \<open>size\<close>).
\<close>

record SSiloMemorySpec =
  ms_size :: size_t
  ms_numaNode :: uint32_t

record SSiloAllocationSpec =
  as_ptr :: pointer
  as_size :: size_t

text \<open>The two fields of \<open>SYSTEM_INFO\<close> that the code reads.\<close>

record SYSTEM_INFO =
  dwPageSize :: DWORD
  dwAllocationGranularity :: DWORD

text \<open>The flag values of \<open>Windows.h\<close> used by the file.\<close>

definition MEM_COMMIT :: DWORD where "MEM_COMMIT = 0x1000"
definition MEM_RESERVE :: DWORD where "MEM_RESERVE = 0x2000"
definition MEM_RELEASE :: DWORD where "MEM_RELEASE = 0x8000"
definition MEM_LARGE_PAGES :: DWORD where "MEM_LARGE_PAGES = 0x20000000"
definition PAGE_READWRITE :: DWORD where "PAGE_READWRITE = 0x04"

text \<open>
  Calls that leave the file are recorded in a trace, in program order:
  \<open>VirtualAllocExNuma (process, lpAddress, dwSize, flAllocationType, flProtect, nndPreferred)\<close>
  with the address it returned, \<open>VirtualFreeEx (process, lpAddress, dwSize, dwFreeType)\<close>,
  and \<open>siloPointerMapSubmit (count, allocationSpecs)\<close> with the contents of the array passed.
\<close>

datatype event =
    VirtualAllocExNuma_call pointer size_t DWORD DWORD DWORD pointer
  | VirtualFreeEx_call pointer size_t DWORD
  | siloPointerMapSubmit_call uint32_t "SSiloAllocationSpec list"

text \<open>
  What the file takes from outside: the system information, the minimum large-page size,
  the topology service (an \<open>int32_t\<close>, negative when the node does not resolve), and the
  answer of the operating system to each \<open>VirtualAllocExNuma\<close> call, which may depend on
  everything that happened before.
\<close>

record environment =
  GetSystemInfo :: SYSTEM_INFO
  GetLargePageMinimum :: size_t
  topoGetNUMANodeOSIndex :: "uint32_t \<Rightarrow> int32_t"
  os_VirtualAllocExNuma :: "event list \<Rightarrow> pointer \<Rightarrow> size_t \<Rightarrow> DWORD \<Rightarrow> DWORD \<Rightarrow> DWORD \<Rightarrow> pointer"

text \<open>
  The caller's array is addressed through the pointer \<open>spec\<close>: \<open>spec i\<close> is the
  \<open>SSiloMemorySpec\<close>-sized slot at \<open>spec + i\<close>. The caller owns the slots \<open>0 .. count - 1\<close>;
  the slots from \<open>count\<close> on are whatever memory follows the array.
\<close>

type_synonym spec_memory = "nat \<Rightarrow> SSiloMemorySpec"

text \<open>An integer division by zero traps instead of returning.\<close>

datatype fault = DivideByZero

section \<open>Internal functions\<close>

definition siloWindowsMemoryAllocAtNUMA ::
  "environment \<Rightarrow> size_t \<Rightarrow> uint32_t \<Rightarrow> pointer \<Rightarrow> bool \<Rightarrow> bool \<Rightarrow> event list \<Rightarrow> pointer \<times> event list"
where
  "siloWindowsMemoryAllocAtNUMA env size' numaNode startPtr shouldCommit useLargePageSupport tr =
    (let flAllocationType =
           MEM_RESERVE OR (if shouldCommit then MEM_COMMIT else 0)
                       OR (if useLargePageSupport then MEM_LARGE_PAGES else 0);
         r = os_VirtualAllocExNuma env tr startPtr size' flAllocationType PAGE_READWRITE numaNode
     in (r, tr @ [VirtualAllocExNuma_call startPtr size' flAllocationType PAGE_READWRITE numaNode r]))"

definition siloWindowsGetAllocationUnitSize :: "environment \<Rightarrow> bool \<Rightarrow> DWORD" where
  "siloWindowsGetAllocationUnitSize env useLargePageSupport =
    (let systemInfo = GetSystemInfo env;
         largePageSize = (if useLargePageSupport then ucast (GetLargePageMinimum env) else 0);
         allocationUnitSize = dwAllocationGranularity systemInfo;
         allocationUnitSize =
           (if dwPageSize systemInfo > allocationUnitSize then dwPageSize systemInfo
            else allocationUnitSize);
         allocationUnitSize =
           (if largePageSize > allocationUnitSize then largePageSize else allocationUnitSize)
     in allocationUnitSize)"

definition siloWindowsRoundRequestedAllocationSize ::
  "environment \<Rightarrow> size_t \<Rightarrow> bool \<Rightarrow> fault + size_t"
where
  "siloWindowsRoundRequestedAllocationSize env unroundedSize useLargePageSupport =
    (let allocationUnitSize = (ucast (siloWindowsGetAllocationUnitSize env useLargePageSupport) :: size_t)
     in if allocationUnitSize = 0 then Inl DivideByZero
        else
          (let quotient = unroundedSize div allocationUnitSize;
               remainder = unroundedSize mod allocationUnitSize
           in if remainder \<ge> allocationUnitSize div 2
              then Inr (allocationUnitSize * (quotient + 1))
              else Inr (allocationUnitSize * quotient)))"

section \<open>Exported functions\<close>

definition siloMemoryAllocNUMA :: "environment \<Rightarrow> size_t \<Rightarrow> uint32_t \<Rightarrow> event list \<Rightarrow> pointer \<times> event list" where
  "siloMemoryAllocNUMA env size' numaNode tr =
     siloWindowsMemoryAllocAtNUMA env size' numaNode NULL True False tr"

text \<open>\<open>siloMemoryFreeNUMA\<close> ignores its \<open>size\<close> argument: a release passes the size 0.\<close>

definition siloMemoryFreeNUMA :: "pointer \<Rightarrow> size_t \<Rightarrow> event list \<Rightarrow> event list" where
  "siloMemoryFreeNUMA ptr size' tr = tr @ [VirtualFreeEx_call ptr 0 MEM_RELEASE]"

subsection \<open>The loops of siloMultinodeArrayAlloc\<close>

text \<open>
  First loop (\<open>for (i = 0; i < count; ++i)\<close>): checks the node of piece \<open>i\<close>, adds its size to
  \<open>totalRequestedBytes\<close>, rounds the size in place and adds the rounded size to
  \<open>totalActualBytes\<close>. The Boolean of the result is \<open>False\<close> when the loop left the function
  with \<open>return NULL\<close>; the memory is returned in both cases, since the slots before the
  offending piece have been written by then. As \<open>i < count\<close> holds before \<open>++i\<close>, the
  counter never wraps and is a natural number here.
\<close>

function validate_and_round_loop ::
  "environment \<Rightarrow> nat \<Rightarrow> nat \<Rightarrow> size_t \<Rightarrow> size_t \<Rightarrow> spec_memory
     \<Rightarrow> fault + (bool \<times> size_t \<times> size_t \<times> spec_memory)"
where
  "validate_and_round_loop env count i totalRequestedBytes totalActualBytes spec =
    (if i < count then
       (if sint (topoGetNUMANodeOSIndex env (ms_numaNode (spec i))) < 0
        then Inr (False, totalRequestedBytes, totalActualBytes, spec)
        else
          (case siloWindowsRoundRequestedAllocationSize env (ms_size (spec i)) False of
             Inl f \<Rightarrow> Inl f
           | Inr rounded \<Rightarrow>
               validate_and_round_loop env count (Suc i)
                 (totalRequestedBytes + ms_size (spec i))
                 (totalActualBytes + rounded)
                 (spec (i := (spec i)\<lparr>ms_size := rounded\<rparr>))))
     else Inr (True, totalRequestedBytes, totalActualBytes, spec))"
  by pat_completeness auto
termination
  by (relation "measure (\<lambda>(env, count, i, t, a, spec). count - i)") auto

declare validate_and_round_loop.simps [simp del]

text \<open>
  The coverage padding loop, \<open>while (totalActualBytes < totalRequestedBytes)\<close>. Its body adds
  the allocation unit to \<open>totalActualBytes\<close> and to \<open>spec[count].size\<close>, the slot behind the
  last piece \<open>spec[count - 1]\<close>; the write lands in the memory that follows the caller's
  array. Nothing bounds the number of iterations, so not returning is the value \<open>None\<close>.
\<close>

partial_function (option) coverage_padding_loop ::
  "size_t \<Rightarrow> nat \<Rightarrow> size_t \<Rightarrow> size_t \<Rightarrow> spec_memory \<Rightarrow> (size_t \<times> spec_memory) option"
where
  "coverage_padding_loop allocationUnitSize count totalRequestedBytes totalActualBytes spec =
    (if totalActualBytes < totalRequestedBytes then
       coverage_padding_loop allocationUnitSize count totalRequestedBytes
         (totalActualBytes + allocationUnitSize)
         (spec (count := (spec count)\<lparr>ms_size := ms_size (spec count) + allocationUnitSize\<rparr>))
     else Some (totalActualBytes, spec))"

declare coverage_padding_loop.simps [code]

text \<open>
  The piece loop, \<open>for (; numAllocated < count; ++numAllocated)\<close>: commits piece
  \<open>numAllocated\<close> at \<open>allocatedBuffer\<close>, records it in \<open>allocationSpecs[numAllocated]\<close> and
  advances \<open>allocatedBuffer\<close> by the size of the piece; it stops at the first failure.
  The array \<open>allocationSpecs\<close> (its allocation with \<open>new\<close> is taken to succeed) is filled
  from index 0 upwards, so the list holds its first \<open>numAllocated\<close> entries. The result is \<open>(numAllocated, allocationSuccessful,
  allocationSpecs, trace)\<close>.
\<close>

function allocate_pieces_loop ::
  "environment \<Rightarrow> nat \<Rightarrow> spec_memory \<Rightarrow> nat \<Rightarrow> pointer \<Rightarrow> SSiloAllocationSpec list \<Rightarrow> event list
     \<Rightarrow> nat \<times> bool \<times> SSiloAllocationSpec list \<times> event list"
where
  "allocate_pieces_loop env count spec numAllocated allocatedBuffer allocationSpecs tr =
    (if numAllocated < count then
       (let (allocationResult, tr') =
              siloWindowsMemoryAllocAtNUMA env (ms_size (spec numAllocated))
                (topoGetNUMANodeOSIndex env (ms_numaNode (spec numAllocated)))
                allocatedBuffer True False tr
        in if allocationResult = NULL then (numAllocated, False, allocationSpecs, tr')
           else allocate_pieces_loop env count spec (Suc numAllocated)
                  (allocatedBuffer + ms_size (spec numAllocated))
                  (allocationSpecs @
                     [\<lparr>as_ptr = allocatedBuffer, as_size = ms_size (spec numAllocated)\<rparr>])
                  tr')
     else (numAllocated, True, allocationSpecs, tr))"
  by pat_completeness auto
termination
  by (relation "measure (\<lambda>(env, count, spec, n, b, a, tr). count - n)") auto

declare allocate_pieces_loop.simps [simp del]

text \<open>The rollback loop, \<open>for (i = 0; i < numAllocated; ++i)\<close>, over the recorded pieces.\<close>

fun free_pieces_loop :: "SSiloAllocationSpec list \<Rightarrow> event list \<Rightarrow> event list" where
  "free_pieces_loop [] tr = tr"
| "free_pieces_loop (a # allocationSpecs) tr =
     free_pieces_loop allocationSpecs (siloMemoryFreeNUMA (as_ptr a) (as_size a) tr)"

subsection \<open>siloMultinodeArrayAlloc\<close>

text \<open>
  The result is \<open>None\<close> when the call does not return, \<open>Some (Inl f)\<close> when it traps, and
  otherwise \<open>Some (Inr (p, spec', tr'))\<close>: the pointer returned, the memory at \<open>spec\<close> and the
  trace after the call.
\<close>

definition siloMultinodeArrayAlloc ::
  "environment \<Rightarrow> uint32_t \<Rightarrow> spec_memory \<Rightarrow> event list
     \<Rightarrow> (fault + (pointer \<times> spec_memory \<times> event list)) option"
where
  "siloMultinodeArrayAlloc env count spec tr =
    (let allocationUnitSize = (ucast (siloWindowsGetAllocationUnitSize env False) :: size_t)
     in case validate_and_round_loop env (unat count) 0 0 0 spec of
          Inl f \<Rightarrow> Some (Inl f)
        | Inr (valid, totalRequestedBytes, totalActualBytes, spec1) \<Rightarrow>
            if \<not> valid then Some (Inr (NULL, spec1, tr))
            else if 0 = totalActualBytes then Some (Inr (NULL, spec1, tr))
            else
              (case coverage_padding_loop allocationUnitSize (unat count)
                      totalRequestedBytes totalActualBytes spec1 of
                 None \<Rightarrow> None
               | Some (totalActualBytes', spec2) \<Rightarrow>
                   (case siloWindowsMemoryAllocAtNUMA env totalActualBytes' 0 NULL False False tr of
                      (allocatedBuffer, tr1) \<Rightarrow>
                        if NULL = allocatedBuffer then Some (Inr (NULL, spec2, tr1))
                        else
                          (case allocate_pieces_loop env (unat count) spec2 0 allocatedBuffer []
                                  (siloMemoryFreeNUMA allocatedBuffer totalActualBytes' tr1) of
                             (numAllocated, allocationSuccessful, allocationSpecs, tr3) \<Rightarrow>
                               if \<not> allocationSuccessful
                               then Some (Inr (NULL, spec2, free_pieces_loop allocationSpecs tr3))
                               else Some (Inr (as_ptr (allocationSpecs ! 0), spec2,
                                      tr3 @ [siloPointerMapSubmit_call (of_nat numAllocated)
                                               allocationSpecs]))))))"

section \<open>Notions used in the statements\<close>

text \<open>
  Piece \<open>j\<close> names a logical node that resolves to an operating-system index; and the slot
  of piece \<open>j\<close> in \<open>spec'\<close> holds the size of the slot in \<open>spec\<close> rounded to the allocation
  unit, with the node unchanged.
\<close>

definition node_resolves :: "environment \<Rightarrow> spec_memory \<Rightarrow> nat \<Rightarrow> bool" where
  "node_resolves env spec j \<longleftrightarrow> \<not> sint (topoGetNUMANodeOSIndex env (ms_numaNode (spec j))) < 0"

definition rounded_in_place :: "environment \<Rightarrow> spec_memory \<Rightarrow> spec_memory \<Rightarrow> nat \<Rightarrow> bool" where
  "rounded_in_place env spec spec' j \<longleftrightarrow>
     siloWindowsRoundRequestedAllocationSize env (ms_size (spec j)) False = Inr (ms_size (spec' j))
     \<and> ms_numaNode (spec' j) = ms_numaNode (spec j)"


text \<open>
  The address of piece \<open>i\<close> when the pieces are laid out from \<open>base\<close> with the sizes in
  \<open>spec\<close>: the base plus the sizes of all pieces before it, in \<open>size_t\<close> arithmetic. \<open>piece\<close>
  is the record the piece loop stores for it, \<open>commit_call\<close> the reserve-and-commit call the
  loop makes for it, with the address \<open>r\<close> the operating system returned.
\<close>

definition piece_address :: "pointer \<Rightarrow> spec_memory \<Rightarrow> nat \<Rightarrow> pointer" where
  "piece_address base spec i = base + sum_list (map (\<lambda>j. ms_size (spec j)) [0..<i])"

definition piece :: "pointer \<Rightarrow> spec_memory \<Rightarrow> nat \<Rightarrow> SSiloAllocationSpec" where
  "piece base spec i = \<lparr>as_ptr = piece_address base spec i, as_size = ms_size (spec i)\<rparr>"

definition commit_call :: "environment \<Rightarrow> spec_memory \<Rightarrow> pointer \<Rightarrow> nat \<Rightarrow> pointer \<Rightarrow> event" where
  "commit_call env spec base i r =
     VirtualAllocExNuma_call (piece_address base spec i) (ms_size (spec i))
       (MEM_RESERVE OR MEM_COMMIT) PAGE_READWRITE
       (topoGetNUMANodeOSIndex env (ms_numaNode (spec i))) r"


text \<open>The probe reservation of the whole range (reserve only, address left to the system,
  node 0), with the address it returned; and the release of a region.\<close>

definition probe_call :: "size_t \<Rightarrow> pointer \<Rightarrow> event" where
  "probe_call totalActualBytes r =
     VirtualAllocExNuma_call NULL totalActualBytes MEM_RESERVE PAGE_READWRITE 0 r"

definition release_call :: "pointer \<Rightarrow> event" where
  "release_call p = VirtualFreeEx_call p 0 MEM_RELEASE"


text \<open>A reserve-and-commit call, and one that returned \<open>NULL\<close>.\<close>

fun commit_attempt :: "event \<Rightarrow> bool" where
  "commit_attempt (VirtualAllocExNuma_call lpAddress dwSize flAllocationType flProtect nndPreferred r) =
     (flAllocationType = MEM_RESERVE OR MEM_COMMIT)"
| "commit_attempt _ = False"

fun failed_commit :: "event \<Rightarrow> bool" where
  "failed_commit (VirtualAllocExNuma_call lpAddress dwSize flAllocationType flProtect nndPreferred r) =
     (flAllocationType = MEM_RESERVE OR MEM_COMMIT \<and> r = NULL)"
| "failed_commit _ = False"

text \<open>
  What the coverage padding loop has done when it returns \<open>y\<close>: the new total covers the
  requested total, it is the old total plus a number of units, the same number of units has
  been added to the size in slot \<open>count\<close>, and no other slot has changed.
\<close>

definition padded ::
  "size_t \<Rightarrow> nat \<Rightarrow> size_t \<Rightarrow> size_t \<Rightarrow> spec_memory \<Rightarrow> size_t \<times> spec_memory \<Rightarrow> bool"
where
  "padded u count T A spec y \<longleftrightarrow>
     T \<le> fst y \<and> (\<forall>j. j \<noteq> count \<longrightarrow> snd y j = spec j) \<and>
     ms_numaNode (snd y count) = ms_numaNode (spec count) \<and>
     (\<exists>k. fst y = A + of_nat k * u \<and> ms_size (snd y count) = ms_size (spec count) + of_nat k * u)"


text \<open>
  A state of the coverage padding loop from which the running total stays a multiple of
  the unit and the requested total lies above the largest multiple of the unit that fits
  \<open>size_t\<close>.
\<close>

definition wraps_forever :: "size_t \<Rightarrow> size_t \<Rightarrow> size_t \<Rightarrow> bool" where
  "wraps_forever u T A \<longleftrightarrow> unat u dvd 2 ^ 64 \<and> unat u dvd unat A \<and> 2 ^ 64 < unat T + unat u"


text \<open>
  The property carried through the fixpoint induction on the loop: a result \<open>y\<close> can only
  come from a state that does not wrap forever.
\<close>

definition never_returns ::
  "size_t \<Rightarrow> nat \<Rightarrow> size_t \<Rightarrow> size_t \<Rightarrow> spec_memory \<Rightarrow> size_t \<times> spec_memory \<Rightarrow> bool"
where
  "never_returns u count T A spec y \<longleftrightarrow> \<not> wraps_forever u T A"


text \<open>
  Readers of the result of a call: the pointer returned, the size field of slot \<open>i\<close> of the
  memory at \<open>spec\<close> after the call, the trace after the call, and the fault of a call that
  trapped.
\<close>

definition returned_pointer ::
  "(fault + (pointer \<times> spec_memory \<times> event list)) option \<Rightarrow> pointer option" where
  "returned_pointer r = (case r of Some (Inr (p, spec', tr')) \<Rightarrow> Some p | _ \<Rightarrow> None)"

definition size_after ::
  "(fault + (pointer \<times> spec_memory \<times> event list)) option \<Rightarrow> nat \<Rightarrow> size_t option" where
  "size_after r i = (case r of Some (Inr (p, spec', tr')) \<Rightarrow> Some (ms_size (spec' i)) | _ \<Rightarrow> None)"

definition trace_after ::
  "(fault + (pointer \<times> spec_memory \<times> event list)) option \<Rightarrow> event list option" where
  "trace_after r = (case r of Some (Inr (p, spec', tr')) \<Rightarrow> Some tr' | _ \<Rightarrow> None)"

definition trapped ::
  "(fault + (pointer \<times> spec_memory \<times> event list)) option \<Rightarrow> fault option" where
  "trapped r = (case r of Some (Inl f) \<Rightarrow> Some f | _ \<Rightarrow> None)"

section \<open>Example environments\<close>

text \<open>
  Concrete environments on which the functions are evaluated: a machine with two NUMA
  nodes (logical nodes 0 and 1 resolve to themselves, every other node to \<open>-1\<close>), with a given
  page size and allocation granularity, and a given behaviour of \<open>VirtualAllocExNuma\<close>.
\<close>

definition example_env ::
  "DWORD \<Rightarrow> DWORD \<Rightarrow> (event list \<Rightarrow> pointer \<Rightarrow> size_t \<Rightarrow> DWORD \<Rightarrow> DWORD \<Rightarrow> DWORD \<Rightarrow> pointer)
     \<Rightarrow> environment"
where
  "example_env pageSize granularity os =
     \<lparr>GetSystemInfo = \<lparr>dwPageSize = pageSize, dwAllocationGranularity = granularity\<rparr>,
      GetLargePageMinimum = 0x200000,
      topoGetNUMANodeOSIndex = (\<lambda>n. if n < 2 then n else - 1),
      os_VirtualAllocExNuma = os\<rparr>"

text \<open>An operating system that grants every request: at the address asked for, or at
  \<open>0x10000000\<close> when the caller leaves the address to it.\<close>

definition os_grants_all :: "event list \<Rightarrow> pointer \<Rightarrow> size_t \<Rightarrow> DWORD \<Rightarrow> DWORD \<Rightarrow> DWORD \<Rightarrow> pointer" where
  "os_grants_all tr lpAddress dwSize flAllocationType flProtect nndPreferred =
     (if lpAddress = NULL then 0x10000000 else lpAddress)"

text \<open>An operating system that has no memory left on node 1.\<close>

definition os_node1_exhausted :: "event list \<Rightarrow> pointer \<Rightarrow> size_t \<Rightarrow> DWORD \<Rightarrow> DWORD \<Rightarrow> DWORD \<Rightarrow> pointer" where
  "os_node1_exhausted tr lpAddress dwSize flAllocationType flProtect nndPreferred =
     (if nndPreferred = 1 then NULL
      else if lpAddress = NULL then 0x10000000 else lpAddress)"

text \<open>An operating system that has no address space left.\<close>

definition os_refuses_all :: "event list \<Rightarrow> pointer \<Rightarrow> size_t \<Rightarrow> DWORD \<Rightarrow> DWORD \<Rightarrow> DWORD \<Rightarrow> pointer" where
  "os_refuses_all tr lpAddress dwSize flAllocationType flProtect nndPreferred = NULL"

text \<open>The memory at \<open>spec\<close> when the caller passes the given pieces, \<open>(size, numaNode)\<close> each;
  the memory behind the array holds zeros.\<close>

definition request :: "(size_t \<times> uint32_t) list \<Rightarrow> spec_memory" where
  "request pieces i =
     (if i < length pieces then \<lparr>ms_size = fst (pieces ! i), ms_numaNode = snd (pieces ! i)\<rparr>
      else \<lparr>ms_size = 0, ms_numaNode = 0\<rparr>)"

section \<open>Arithmetic of the machine types\<close>

lemma unat_unit_ucast: "unat (ucast (w :: DWORD) :: size_t) = unat w"
proof -
  have "unat w < 2 ^ 32" using unsigned_less[of w, where 'a=nat] by simp
  then have "unat w < 2 ^ 64" by simp
  then show ?thesis
    by (simp add: unsigned_ucast_eq take_bit_nat_eq_self)
qed

lemma unat_size_t_bound: "unat (s :: size_t) < 2 ^ 64"
  using unsigned_less[of s, where 'a=nat] by simp

lemma unit_example_env:
  "siloWindowsGetAllocationUnitSize (example_env p g os) False = (if p > g then p else g)"
  by (simp add: siloWindowsGetAllocationUnitSize_def example_env_def)

section \<open>The rounding function\<close>

text \<open>
  The value of the rounding function as a natural number, as long as the multiple it
  rounds up to is below \<open>2 ^ 64\<close>.
\<close>

lemma round_word_unat:
  fixes s :: size_t
  assumes U_def: "U = unat (siloWindowsGetAllocationUnitSize env large)"
    and U: "0 < U"
    and nov: "U div 2 \<le> unat s mod U \<Longrightarrow> U * (unat s div U + 1) < 2 ^ 64"
  shows "\<exists>R. siloWindowsRoundRequestedAllocationSize env s large = Inr R \<and>
     unat R = (if U div 2 \<le> unat s mod U then U * (unat s div U + 1) else U * (unat s div U))"
proof -
  define u :: size_t where "u = ucast (siloWindowsGetAllocationUnitSize env large)"
  have uU: "unat u = U" by (simp add: u_def U_def unat_unit_ucast)
  have u0: "u \<noteq> 0" using U uU by (metis unat_eq_zero less_numeral_extra(3))
  have q: "unat (s div u) = unat s div U" by (simp add: unat_div uU)
  have r: "unat (s mod u) = unat s mod U" by (simp add: unat_mod uU)
  have h: "unat (u div 2) = U div 2" by (simp add: unat_div uU)
  have cond: "(u div 2 \<le> s mod u) \<longleftrightarrow> (U div 2 \<le> unat s mod U)"
    by (simp add: word_le_nat_alt r h)
  have down: "unat (u * (s div u)) = U * (unat s div U)"
  proof -
    have "U * (unat s div U) \<le> unat s" by simp
    then have "U * (unat s div U) < 2 ^ 64"
      by (rule le_less_trans) (rule unat_size_t_bound)
    then have "unat u * unat (s div u) < 2 ^ LENGTH(64)"
      by (simp add: uU q)
    then show ?thesis by (simp add: unat_mult_lem[THEN iffD1] uU q)
  qed
  have up: "unat (u * (s div u + 1)) = U * (unat s div U + 1)" if "U div 2 \<le> unat s mod U"
  proof -
    have b: "U * (unat s div U + 1) < 2 ^ 64" using nov that by simp
    have "1 * (unat s div U + 1) \<le> U * (unat s div U + 1)"
      using U by (intro mult_le_mono1) simp
    then have "unat s div U + 1 \<le> U * (unat s div U + 1)" by (simp del: mult_Suc_right)
    with b have "unat (s div u) + unat (1 :: size_t) < 2 ^ LENGTH(64)" by (simp add: q)
    then have q1: "unat (s div u + 1) = unat s div U + 1"
      by (simp add: unat_add_lem[THEN iffD1] q)
    have "unat u * unat (s div u + 1) < 2 ^ LENGTH(64)" using b by (simp add: uU q1)
    then show ?thesis by (simp add: unat_mult_lem[THEN iffD1] uU q1)
  qed
  show ?thesis
    using u0 cond down up
    by (simp add: siloWindowsRoundRequestedAllocationSize_def Let_def u_def[symmetric])
qed

text \<open>Among the multiples of an even unit, the one chosen by the half-unit rule is nearest,
  and the upper one of two nearest.\<close>

lemma nearest_linear:
  fixes A B r h U S Rv :: nat
  assumes "S = A + r" "r < U" "U = 2 * h" "B \<le> A \<or> A + U \<le> B"
    and "Rv = (if h \<le> r then A + U else A)"
  shows "\<bar>int Rv - int S\<bar> \<le> \<bar>int B - int S\<bar>"
    and "\<bar>int B - int S\<bar> = \<bar>int Rv - int S\<bar> \<Longrightarrow> B \<le> Rv"
  using assms by (auto split: if_splits)

lemma half_unit_rule_nearest:
  fixes U S m :: nat
  assumes U: "0 < U" "even U" and m: "U dvd m"
    and Rv: "Rv = (if U div 2 \<le> S mod U then U * (S div U + 1) else U * (S div U))"
  shows "\<bar>int Rv - int S\<bar> \<le> \<bar>int m - int S\<bar>"
    and "\<bar>int m - int S\<bar> = \<bar>int Rv - int S\<bar> \<Longrightarrow> m \<le> Rv"
proof -
  obtain k where k: "m = U * k" using m by (auto simp: dvd_def)
  define q where "q = S div U"
  define r where "r = S mod U"
  define h where "h = U div 2"
  have S: "S = U * q + r" by (simp add: q_def r_def)
  have r: "r < U" using U by (simp add: r_def)
  have half: "U = 2 * h" using U by (simp add: h_def)
  have R: "Rv = (if h \<le> r then U * q + U else U * q)"
    by (simp add: Rv q_def r_def h_def)
  have kq: "m \<le> U * q \<or> U * q + U \<le> m"
  proof (cases "k \<le> q")
    case True
    then show ?thesis by (simp add: k)
  next
    case False
    then have "U * (q + 1) \<le> U * k" by (intro mult_le_mono2) simp
    then show ?thesis by (simp add: k)
  qed
  show "\<bar>int Rv - int S\<bar> \<le> \<bar>int m - int S\<bar>"
    by (rule nearest_linear(1)[OF S r half kq R])
  show "\<bar>int m - int S\<bar> = \<bar>int Rv - int S\<bar> \<Longrightarrow> m \<le> Rv"
    by (rule nearest_linear(2)[OF S r half kq R])
qed

text \<open>
  Claim C3, amended. Let \<open>U > 0\<close> be the allocation unit that the granularity resolver
  returns and \<open>s = U * q + r\<close> with \<open>r < U\<close>. Provided that \<open>U * (q + 1)\<close> is below \<open>2 ^ 64\<close>
  whenever the remainder is at least half the unit, the rounding function returns \<open>U * (q + 1)\<close>
  when \<open>r \<ge> U div 2\<close> and \<open>U * q\<close> otherwise; the result is a multiple of \<open>U\<close>; it is zero when
  \<open>q = 0\<close> and \<open>r < U div 2\<close>; and for an even unit it is the multiple of \<open>U\<close> nearest to \<open>s\<close>,
  the upper one when two multiples are equally near.
\<close>

theorem siloWindowsRoundRequestedAllocationSize_nearest:
  fixes s :: size_t
  assumes "U = unat (siloWindowsGetAllocationUnitSize env large)"
    and "0 < U"
    and "U div 2 \<le> unat s mod U \<Longrightarrow> U * (unat s div U + 1) < 2 ^ 64"
  shows "\<exists>R. siloWindowsRoundRequestedAllocationSize env s large = Inr R
      \<and> U dvd unat R
      \<and> unat R = (if U div 2 \<le> unat s mod U then U * (unat s div U + 1)
                   else U * (unat s div U))
      \<and> (unat s div U = 0 \<and> unat s mod U < U div 2 \<longrightarrow> R = 0)
      \<and> (even U \<longrightarrow>
           (\<forall>m. U dvd m \<longrightarrow>
              \<bar>int (unat R) - int (unat s)\<bar> \<le> \<bar>int m - int (unat s)\<bar>
              \<and> (\<bar>int m - int (unat s)\<bar> = \<bar>int (unat R) - int (unat s)\<bar> \<longrightarrow> m \<le> unat R)))"
proof -
  from round_word_unat[OF assms] obtain R where
    R: "siloWindowsRoundRequestedAllocationSize env s large = Inr R"
    and v: "unat R = (if U div 2 \<le> unat s mod U then U * (unat s div U + 1)
                      else U * (unat s div U))"
    by blast
  have d: "U dvd unat R" by (simp add: v)
  have z: "unat s div U = 0 \<and> unat s mod U < U div 2 \<longrightarrow> R = 0"
  proof
    assume "unat s div U = 0 \<and> unat s mod U < U div 2"
    then have "unat R = 0" by (simp add: v)
    then show "R = 0" by (simp add: unat_eq_zero)
  qed
  have n: "even U \<longrightarrow>
           (\<forall>m. U dvd m \<longrightarrow>
              \<bar>int (unat R) - int (unat s)\<bar> \<le> \<bar>int m - int (unat s)\<bar>
              \<and> (\<bar>int m - int (unat s)\<bar> = \<bar>int (unat R) - int (unat s)\<bar> \<longrightarrow> m \<le> unat R))"
    using half_unit_rule_nearest[OF assms(2) _ _ v] by blast
  show ?thesis using R d v z n by blast
qed

theorem siloWindowsRoundRequestedAllocationSize_nearest_witness:
  "(\<exists>R. siloWindowsRoundRequestedAllocationSize (example_env 4096 4096 os_grants_all) 6144 False = Inr R
      \<and> unat R = 8192 \<and> 4096 dvd unat R
      \<and> (\<forall>m. 4096 dvd m \<longrightarrow> \<bar>int (unat R) - 6144\<bar> \<le> \<bar>int m - 6144\<bar>
            \<and> (\<bar>int m - 6144\<bar> = \<bar>int (unat R) - 6144\<bar> \<longrightarrow> m \<le> unat R)))
   \<and> siloWindowsRoundRequestedAllocationSize (example_env 4096 4096 os_grants_all) 2047 False = Inr 0"
proof -
  have u: "(4096::nat) = unat (siloWindowsGetAllocationUnitSize (example_env 4096 4096 os_grants_all) False)"
    by (simp add: unit_example_env)
  have p: "(0::nat) < 4096" by simp
  have a: "(4096::nat) div 2 \<le> unat (6144 :: size_t) mod 4096
        \<Longrightarrow> 4096 * (unat (6144 :: size_t) div 4096 + 1) < (2::nat) ^ 64" by simp
  have b: "(4096::nat) div 2 \<le> unat (2047 :: size_t) mod 4096
        \<Longrightarrow> 4096 * (unat (2047 :: size_t) div 4096 + 1) < (2::nat) ^ 64" by simp
  show ?thesis
    using siloWindowsRoundRequestedAllocationSize_nearest [OF u p a]
          siloWindowsRoundRequestedAllocationSize_nearest [OF u p b]
    by auto
qed

text \<open>
  Claim C3 as stated fails in two places. With the unit 65536 and \<open>s = 2 ^ 64 - 1\<close> the
  remainder 65535 is at least half the unit, but \<open>65536 * (q + 1) = 2 ^ 64\<close> wraps around and
  the function returns 0, although the multiple \<open>2 ^ 64 - 65536\<close> is nearer to \<open>s\<close>. With an
  odd unit the threshold \<open>U div 2\<close> is below half the unit: for the unit 3 and \<open>s = 1\<close> the
  function returns 3, although the multiple 0 is nearer.
\<close>

theorem siloWindowsRoundRequestedAllocationSize_counterexample:
  "siloWindowsGetAllocationUnitSize (example_env 4096 65536 os_grants_all) False = 65536
   \<and> (65536::nat) div 2 \<le> unat (0xFFFFFFFFFFFFFFFF :: size_t) mod 65536
   \<and> siloWindowsRoundRequestedAllocationSize (example_env 4096 65536 os_grants_all)
        0xFFFFFFFFFFFFFFFF False = Inr 0
   \<and> unat (0 :: size_t) \<noteq> 65536 * (unat (0xFFFFFFFFFFFFFFFF :: size_t) div 65536 + 1)
   \<and> (65536::nat) dvd 0xFFFFFFFFFFFF0000
   \<and> \<bar>int 0xFFFFFFFFFFFF0000 - int (unat (0xFFFFFFFFFFFFFFFF :: size_t))\<bar>
        < \<bar>int (unat (0 :: size_t)) - int (unat (0xFFFFFFFFFFFFFFFF :: size_t))\<bar>
   \<and> siloWindowsGetAllocationUnitSize (example_env 1 3 os_grants_all) False = 3
   \<and> siloWindowsRoundRequestedAllocationSize (example_env 1 3 os_grants_all) 1 False = Inr 3
   \<and> (3::nat) dvd 0
   \<and> \<bar>int 0 - int (unat (1 :: size_t))\<bar> < \<bar>int (unat (3 :: size_t)) - int (unat (1 :: size_t))\<bar>"
  by (simp add: unit_example_env siloWindowsRoundRequestedAllocationSize_def)

section \<open>The first loop\<close>

lemma validate_loop_success:
  "validate_and_round_loop env count i T A spec = Inr (True, T', A', spec') \<Longrightarrow>
     (\<forall>j. j < i \<or> count \<le> j \<longrightarrow> spec' j = spec j) \<and>
     (\<forall>j. i \<le> j \<and> j < count \<longrightarrow> node_resolves env spec j \<and> rounded_in_place env spec spec' j)"
proof (induction env count i T A spec rule: validate_and_round_loop.induct)
  case (1 env count i T A spec)
  show ?case
  proof (cases "i < count")
    case False
    with "1.prems" have "spec' = spec"
      by (simp add: validate_and_round_loop.simps[of env count i])
    with False show ?thesis by auto
  next
    case True
    from "1.prems" True have ok: "\<not> sint (topoGetNUMANodeOSIndex env (ms_numaNode (spec i))) < 0"
      by (auto simp: validate_and_round_loop.simps[of env count i] split: if_splits)
    from "1.prems" True ok obtain b where
      b: "siloWindowsRoundRequestedAllocationSize env (ms_size (spec i)) False = Inr b"
      and rec: "validate_and_round_loop env count (Suc i) (T + ms_size (spec i)) (A + b)
                  (spec(i := spec i\<lparr>ms_size := b\<rparr>)) = Inr (True, T', A', spec')"
      by (auto simp: validate_and_round_loop.simps[of env count i] split: sum.splits)
    note IH = "1.IH"[OF True ok b rec]
    from IH have here: "spec' i = (spec i)\<lparr>ms_size := b\<rparr>" by simp
    have frame: "\<forall>j. j < i \<or> count \<le> j \<longrightarrow> spec' j = spec j"
      using IH True by auto
    have later: "\<forall>j. Suc i \<le> j \<and> j < count \<longrightarrow>
                   node_resolves env spec j \<and> rounded_in_place env spec spec' j"
      using IH by (auto simp: node_resolves_def rounded_in_place_def)
    have this_one: "node_resolves env spec i \<and> rounded_in_place env spec spec' i"
      using ok b here by (simp add: node_resolves_def rounded_in_place_def)
    show ?thesis
    proof (intro conjI allI impI)
      fix j assume "j < i \<or> count \<le> j" then show "spec' j = spec j" using frame by blast
    next
      fix j assume j: "i \<le> j \<and> j < count"
      then show "node_resolves env spec j" using later this_one by (cases "j = i") auto
    next
      fix j assume j: "i \<le> j \<and> j < count"
      then show "rounded_in_place env spec spec' j" using later this_one by (cases "j = i") auto
    qed
  qed
qed

lemma validate_loop_failure:
  "validate_and_round_loop env count i T A spec = Inr (False, T', A', spec') \<Longrightarrow>
     \<exists>k. i \<le> k \<and> k < count \<and> \<not> node_resolves env spec k \<and>
       (\<forall>j. j < i \<or> k \<le> j \<longrightarrow> spec' j = spec j) \<and>
       (\<forall>j. i \<le> j \<and> j < k \<longrightarrow> node_resolves env spec j \<and> rounded_in_place env spec spec' j)"
proof (induction env count i T A spec rule: validate_and_round_loop.induct)
  case (1 env count i T A spec)
  show ?case
  proof (cases "i < count")
    case False
    with "1.prems" show ?thesis
      by (simp add: validate_and_round_loop.simps[of env count i])
  next
    case True
    show ?thesis
    proof (cases "sint (topoGetNUMANodeOSIndex env (ms_numaNode (spec i))) < 0")
      case bad: True
      with "1.prems" True have "spec' = spec"
        by (simp add: validate_and_round_loop.simps[of env count i])
      with bad True show ?thesis
        by (intro exI[of _ i]) (simp add: node_resolves_def)
    next
      case ok: False
      from "1.prems" True ok obtain b where
        b: "siloWindowsRoundRequestedAllocationSize env (ms_size (spec i)) False = Inr b"
        and rec: "validate_and_round_loop env count (Suc i) (T + ms_size (spec i)) (A + b)
                  (spec(i := spec i\<lparr>ms_size := b\<rparr>)) = Inr (False, T', A', spec')"
        by (auto simp: validate_and_round_loop.simps[of env count i] split: sum.splits)
      from "1.IH"[OF True ok b rec] obtain k where
        k: "Suc i \<le> k" "k < count"
        and bad: "\<not> node_resolves env (spec(i := spec i\<lparr>ms_size := b\<rparr>)) k"
        and frame: "\<forall>j. j < Suc i \<or> k \<le> j \<longrightarrow> spec' j = (spec(i := spec i\<lparr>ms_size := b\<rparr>)) j"
        and prior: "\<forall>j. Suc i \<le> j \<and> j < k \<longrightarrow>
                     node_resolves env (spec(i := spec i\<lparr>ms_size := b\<rparr>)) j \<and>
                     rounded_in_place env (spec(i := spec i\<lparr>ms_size := b\<rparr>)) spec' j"
        by blast
      from frame have here: "spec' i = (spec i)\<lparr>ms_size := b\<rparr>" by simp
      have this_one: "node_resolves env spec i \<and> rounded_in_place env spec spec' i"
        using ok b here by (simp add: node_resolves_def rounded_in_place_def)
      have bad': "\<not> node_resolves env spec k" using bad k by (simp add: node_resolves_def)
      have frame': "\<forall>j. j < i \<or> k \<le> j \<longrightarrow> spec' j = spec j"
        using frame k by auto
      have prior': "\<forall>j. i \<le> j \<and> j < k \<longrightarrow>
                     node_resolves env spec j \<and> rounded_in_place env spec spec' j"
      proof (intro allI impI)
        fix j assume j: "i \<le> j \<and> j < k"
        show "node_resolves env spec j \<and> rounded_in_place env spec spec' j"
        proof (cases "j = i")
          case True then show ?thesis using this_one by simp
        next
          case False
          with j have "Suc i \<le> j \<and> j < k" by simp
          with prior False show ?thesis
            by (auto simp: node_resolves_def rounded_in_place_def)
        qed
      qed
      show ?thesis using k bad' frame' prior' by (intro exI[of _ k]) simp
    qed
  qed
qed

lemma ucast_unit_eq_0: "(ucast (w :: DWORD) :: size_t) = 0 \<longleftrightarrow> w = 0"
  using unat_unit_ucast[of w] by (metis unat_eq_zero unat_0)

lemma round_no_fault:
  assumes "siloWindowsGetAllocationUnitSize env large \<noteq> 0"
  shows "\<exists>b. siloWindowsRoundRequestedAllocationSize env s large = Inr b"
  using assms
  by (simp add: siloWindowsRoundRequestedAllocationSize_def Let_def ucast_unit_eq_0)

lemma validate_loop_invalid:
  "siloWindowsGetAllocationUnitSize env False \<noteq> 0 \<Longrightarrow>
    i \<le> k \<Longrightarrow> k < count \<Longrightarrow> \<not> node_resolves env spec k \<Longrightarrow>
    \<exists>T' A' spec'. validate_and_round_loop env count i T A spec = Inr (False, T', A', spec')"
proof (induction env count i T A spec rule: validate_and_round_loop.induct)
  case (1 env' count i T A spec)
  from "1.prems" have lt: "i < count" by simp
  show ?case
  proof (cases "sint (topoGetNUMANodeOSIndex env' (ms_numaNode (spec i))) < 0")
    case True
    with lt show ?thesis by (simp add: validate_and_round_loop.simps[of env' count i])
  next
    case ok: False
    from "1.prems"(1) obtain b where
      b: "siloWindowsRoundRequestedAllocationSize env' (ms_size (spec i)) False = Inr b"
      using round_no_fault by blast
    from ok "1.prems"(4) have ne: "k \<noteq> i" by (auto simp: node_resolves_def)
    with "1.prems"(2) have k': "Suc i \<le> k" by simp
    from ne "1.prems"(4) have bad: "\<not> node_resolves env' (spec(i := spec i\<lparr>ms_size := b\<rparr>)) k"
      by (simp add: node_resolves_def)
    from "1.IH"[OF lt ok b "1.prems"(1) k' "1.prems"(3) bad]
    obtain T' A' spec' where
      "validate_and_round_loop env' count (Suc i) (T + ms_size (spec i)) (A + b)
         (spec(i := spec i\<lparr>ms_size := b\<rparr>)) = Inr (False, T', A', spec')"
      by blast
    then have "validate_and_round_loop env' count i T A spec = Inr (False, T', A', spec')"
      using lt ok b by (simp add: validate_and_round_loop.simps[of env' count i])
    then show ?thesis by blast
  qed
qed

lemma validate_loop_totals:
  "validate_and_round_loop env count i T A spec = Inr (True, T', A', spec') \<Longrightarrow>
     T' = T + sum_list (map (\<lambda>j. ms_size (spec j)) [i..<count]) \<and>
     A' = A + sum_list (map (\<lambda>j. ms_size (spec' j)) [i..<count])"
proof (induction env count i T A spec rule: validate_and_round_loop.induct)
  case (1 env count i T A spec)
  show ?case
  proof (cases "i < count")
    case False
    with "1.prems" show ?thesis
      by (simp add: validate_and_round_loop.simps[of env count i])
  next
    case True
    from "1.prems" True have ok: "\<not> sint (topoGetNUMANodeOSIndex env (ms_numaNode (spec i))) < 0"
      by (auto simp: validate_and_round_loop.simps[of env count i] split: if_splits)
    from "1.prems" True ok obtain b where
      b: "siloWindowsRoundRequestedAllocationSize env (ms_size (spec i)) False = Inr b"
      and rec: "validate_and_round_loop env count (Suc i) (T + ms_size (spec i)) (A + b)
                  (spec(i := spec i\<lparr>ms_size := b\<rparr>)) = Inr (True, T', A', spec')"
      by (auto simp: validate_and_round_loop.simps[of env count i] split: sum.splits)
    have same: "map (\<lambda>j. ms_size ((spec(i := spec i\<lparr>ms_size := b\<rparr>)) j)) [Suc i..<count]
                = map (\<lambda>j. ms_size (spec j)) [Suc i..<count]"
      by (rule map_cong) simp_all
    note IH = "1.IH"[OF True ok b rec, unfolded same]
    from IH have
      T': "T' = T + ms_size (spec i) + sum_list (map (\<lambda>j. ms_size (spec j)) [Suc i..<count])"
      by (rule conjunct1)
    from IH have
      A': "A' = A + b + sum_list (map (\<lambda>j. ms_size (spec' j)) [Suc i..<count])"
      by (rule conjunct2)
    from validate_loop_success[OF rec] have here: "spec' i = (spec i)\<lparr>ms_size := b\<rparr>" by simp
    have split: "[i..<count] = i # [Suc i..<count]" using True by (simp add: upt_conv_Cons)
    show ?thesis
      unfolding split using T' A' here by (simp add: add.assoc)
  qed
qed

section \<open>The coverage padding loop\<close>

lemma padded_stop: "\<not> A < T \<Longrightarrow> padded u count T A spec (A, spec)"
  unfolding padded_def
  by (intro conjI) (simp, simp, simp, rule exI[of _ 0], simp)

lemma padded_step:
  assumes "padded u count T (A + u) (spec(count := (spec count)\<lparr>ms_size := ms_size (spec count) + u\<rparr>)) y"
  shows "padded u count T A spec y"
proof -
  from assms obtain k where
    d: "fst y = A + u + of_nat k * u"
    and e: "ms_size (snd y count) = ms_size (spec count) + u + of_nat k * u"
    unfolding padded_def by auto
  have z: "fst y = A + of_nat (Suc k) * u \<and>
           ms_size (snd y count) = ms_size (spec count) + of_nat (Suc k) * u"
    using d e by (simp add: algebra_simps)
  from assms have a: "T \<le> fst y" and b: "\<forall>j. j \<noteq> count \<longrightarrow> snd y j = spec j"
    and c: "ms_numaNode (snd y count) = ms_numaNode (spec count)"
    unfolding padded_def by simp_all
  show ?thesis unfolding padded_def
    by (intro conjI) (rule a, rule b, rule c, rule exI, rule z)
qed

lemma pad_loop_result:
  assumes "coverage_padding_loop u count T A spec = Some y"
  shows "padded u count T A spec y"
  apply (rule coverage_padding_loop.raw_induct[where P=padded, OF _ assms])
  subgoal premises prems for loop u count T A spec y
  proof (cases "A < T")
    case False
    with prems(2) have "y = (A, spec)" by simp
    with False show ?thesis by (simp add: padded_stop)
  next
    case True
    with prems(2) have "loop u count T (A + u) (spec(count := (spec count)\<lparr>ms_size := ms_size (spec count) + u\<rparr>)) = Some y"
      by simp
    then have "padded u count T (A + u) (spec(count := (spec count)\<lparr>ms_size := ms_size (spec count) + u\<rparr>)) y"
      by (rule prems(1))
    then show ?thesis by (rule padded_step)
  qed
  done

lemma pad_loop_terminates:
  assumes u: "u \<noteq> 0" and nowrap: "unat T + unat u \<le> 2 ^ 64"
  shows "\<exists>y. coverage_padding_loop u count T A spec = Some y"
proof (induction "unat T - unat A" arbitrary: A spec rule: less_induct)
  case less
  show ?case
  proof (cases "A < T")
    case False
    then show ?thesis by (subst coverage_padding_loop.simps) simp
  next
    case True
    then have lt: "unat A < unat T" by (simp add: word_less_nat_alt)
    have upos: "0 < unat u" using u by (simp add: unat_gt_0)
    have "unat A + unat u < 2 ^ LENGTH(64)" using lt nowrap by simp
    then have sum: "unat (A + u) = unat A + unat u" by (simp add: unat_add_lem[THEN iffD1])
    have "unat T - unat (A + u) < unat T - unat A" using lt upos sum by simp
    from less[OF this] obtain y where
      "coverage_padding_loop u count T (A + u)
         (spec(count := (spec count)\<lparr>ms_size := ms_size (spec count) + u\<rparr>)) = Some y"
      by blast
    with True have "coverage_padding_loop u count T A spec = Some y"
      by (subst coverage_padding_loop.simps) simp
    then show ?thesis by blast
  qed
qed

lemma multiple_below:
  fixes u a N :: nat
  assumes "u dvd a" "u dvd N" "a < N"
  shows "a + u \<le> N"
proof -
  from assms obtain k m where k: "a = u * k" and m: "N = u * m" by (auto simp: dvd_def)
  from assms(3) have "k < m" unfolding k m by simp
  then have "u * (k + 1) \<le> u * m" by (intro mult_le_mono2) simp
  then show ?thesis by (simp add: k m)
qed


lemma wraps_forever_step:
  assumes "wraps_forever u T A"
  shows "A < T \<and> wraps_forever u T (A + u)"
proof -
  from assms have d: "unat u dvd 2 ^ 64" and a: "unat u dvd unat A"
    and t: "2 ^ 64 < unat T + unat u"
    by (simp_all add: wraps_forever_def)
  have "unat A + unat u \<le> 2 ^ 64"
    by (rule multiple_below[OF a d]) (rule unat_size_t_bound)
  with t have "unat A < unat T" by simp
  then have lt: "A < T" by (simp add: word_less_nat_alt)
  have "unat (A + u) = (unat A + unat u) mod 2 ^ 64"
    by (simp add: unat_word_ariths)
  moreover have "unat u dvd (unat A + unat u) mod 2 ^ 64"
    using a d by (simp add: dvd_mod)
  ultimately have "unat u dvd unat (A + u)" by simp
  with lt d t show ?thesis by (simp add: wraps_forever_def)
qed


lemma pad_loop_diverges:
  assumes "wraps_forever u T A"
  shows "coverage_padding_loop u count T A spec = None"
proof (rule ccontr)
  assume "coverage_padding_loop u count T A spec \<noteq> None"
  then obtain y where y: "coverage_padding_loop u count T A spec = Some y" by blast
  have "never_returns u count T A spec y"
    apply (rule coverage_padding_loop.raw_induct[where P=never_returns, OF _ y])
    subgoal premises prems for loop u count T A spec y
    proof (cases "wraps_forever u T A")
      case False
      then show ?thesis by (simp add: never_returns_def)
    next
      case True
      from wraps_forever_step[OF True] have lt: "A < T" and w: "wraps_forever u T (A + u)"
        by simp_all
      from prems(2) lt have "loop u count T (A + u)
          (spec(count := (spec count)\<lparr>ms_size := ms_size (spec count) + u\<rparr>)) = Some y"
        by simp
      then have "never_returns u count T (A + u)
          (spec(count := (spec count)\<lparr>ms_size := ms_size (spec count) + u\<rparr>)) y"
        by (rule prems(1))
      with w show ?thesis by (simp add: never_returns_def)
    qed
    done
  with assms show False by (simp add: never_returns_def)
qed

section \<open>The piece loop and the rollback loop\<close>

lemma piece_address_0: "piece_address base spec 0 = base"
  by (simp add: piece_address_def)

lemma piece_address_Suc:
  "piece_address base spec (Suc i) = piece_address base spec i + ms_size (spec i)"
  by (simp add: piece_address_def)

lemma commit_step:
  "siloWindowsMemoryAllocAtNUMA env (ms_size (spec n))
     (topoGetNUMANodeOSIndex env (ms_numaNode (spec n))) (piece_address base spec n) True False tr
   = (r, tr1) \<Longrightarrow> tr1 = tr @ [commit_call env spec base n r]"
  by (auto simp: siloWindowsMemoryAllocAtNUMA_def commit_call_def Let_def)

lemma alloc_loop_pieces:
  "allocate_pieces_loop env count spec n buf specs tr = (k, ok, specs', tr') \<Longrightarrow>
   buf = piece_address base spec n \<Longrightarrow> specs = map (piece base spec) [0..<n] \<Longrightarrow> n \<le> count \<Longrightarrow>
     n \<le> k \<and> k \<le> count \<and> (ok \<longleftrightarrow> k = count) \<and> specs' = map (piece base spec) [0..<k]"
proof (induction env count spec n buf specs tr rule: allocate_pieces_loop.induct)
  case (1 env count spec n buf specs tr)
  show ?case
  proof (cases "n < count")
    case False
    with "1.prems"(1) have "k = n" "ok" "specs' = specs"
      by (simp_all add: allocate_pieces_loop.simps[of env count spec n])
    with "1.prems" False show ?thesis by auto
  next
    case True
    obtain r tr1 where call: "siloWindowsMemoryAllocAtNUMA env (ms_size (spec n))
        (topoGetNUMANodeOSIndex env (ms_numaNode (spec n))) buf True False tr = (r, tr1)"
      by (cases "siloWindowsMemoryAllocAtNUMA env (ms_size (spec n))
        (topoGetNUMANodeOSIndex env (ms_numaNode (spec n))) buf True False tr")
    show ?thesis
    proof (cases "r = NULL")
      case True
      with "1.prems"(1) \<open>n < count\<close> call have "k = n" "ok = False" "specs' = specs"
        by (simp_all add: allocate_pieces_loop.simps[of env count spec n])
      with "1.prems" \<open>n < count\<close> show ?thesis by simp
    next
      case False
      with "1.prems"(1) \<open>n < count\<close> call have
        rec: "allocate_pieces_loop env count spec (Suc n) (buf + ms_size (spec n))
                (specs @ [\<lparr>as_ptr = buf, as_size = ms_size (spec n)\<rparr>]) tr1 = (k, ok, specs', tr')"
        by (simp add: allocate_pieces_loop.simps[of env count spec n])
      have b: "buf + ms_size (spec n) = piece_address base spec (Suc n)"
        using "1.prems"(2) by (simp add: piece_address_Suc)
      have s: "specs @ [\<lparr>as_ptr = buf, as_size = ms_size (spec n)\<rparr>] = map (piece base spec) [0..<Suc n]"
        using "1.prems"(2,3) by (simp add: piece_def)
      from \<open>n < count\<close> have c: "Suc n \<le> count" by simp
      from "1.IH"[OF \<open>n < count\<close> call[symmetric] refl False rec b s c]
      show ?thesis by simp
    qed
  qed
qed


lemma alloc_loop_mono:
  "allocate_pieces_loop env count spec n buf specs tr = (k, ok, specs', tr') \<Longrightarrow> n \<le> k"
proof (induction env count spec n buf specs tr rule: allocate_pieces_loop.induct)
  case (1 env count spec n buf specs tr)
  show ?case
  proof (cases "n < count")
    case False
    with "1.prems"(1) show ?thesis
      by (simp add: allocate_pieces_loop.simps[of env count spec n])
  next
    case True
    obtain r tr1 where call: "siloWindowsMemoryAllocAtNUMA env (ms_size (spec n))
        (topoGetNUMANodeOSIndex env (ms_numaNode (spec n))) buf True False tr = (r, tr1)"
      by (cases "siloWindowsMemoryAllocAtNUMA env (ms_size (spec n))
        (topoGetNUMANodeOSIndex env (ms_numaNode (spec n))) buf True False tr")
    show ?thesis
    proof (cases "r = NULL")
      case True
      with "1.prems"(1) \<open>n < count\<close> call show ?thesis
        by (simp add: allocate_pieces_loop.simps[of env count spec n])
    next
      case False
      with "1.prems"(1) \<open>n < count\<close> call have
        rec: "allocate_pieces_loop env count spec (Suc n) (buf + ms_size (spec n))
                (specs @ [\<lparr>as_ptr = buf, as_size = ms_size (spec n)\<rparr>]) tr1 = (k, ok, specs', tr')"
        by (simp add: allocate_pieces_loop.simps[of env count spec n])
      from "1.IH"[OF \<open>n < count\<close> call[symmetric] refl False rec]
      show ?thesis by simp
    qed
  qed
qed

lemma alloc_loop_trace:
  "allocate_pieces_loop env count spec n buf specs tr = (k, ok, specs', tr') \<Longrightarrow>
   buf = piece_address base spec n \<Longrightarrow>
     \<exists>rs. (\<forall>j. n \<le> j \<and> j < k \<longrightarrow> rs j \<noteq> NULL) \<and>
          tr' = tr @ map (\<lambda>j. commit_call env spec base j (rs j)) [n..<k]
                   @ (if ok then [] else [commit_call env spec base k NULL])"
proof (induction env count spec n buf specs tr rule: allocate_pieces_loop.induct)
  case (1 env count spec n buf specs tr)
  show ?case
  proof (cases "n < count")
    case False
    with "1.prems"(1) have "k = n" "ok" "tr' = tr"
      by (simp_all add: allocate_pieces_loop.simps[of env count spec n])
    then show ?thesis by auto
  next
    case True
    obtain r tr1 where call: "siloWindowsMemoryAllocAtNUMA env (ms_size (spec n))
        (topoGetNUMANodeOSIndex env (ms_numaNode (spec n))) buf True False tr = (r, tr1)"
      by (cases "siloWindowsMemoryAllocAtNUMA env (ms_size (spec n))
        (topoGetNUMANodeOSIndex env (ms_numaNode (spec n))) buf True False tr")
    from call "1.prems"(2) have tr1: "tr1 = tr @ [commit_call env spec base n r]"
      by (simp add: commit_step)
    show ?thesis
    proof (cases "r = NULL")
      case True
      with "1.prems"(1) \<open>n < count\<close> call have "k = n" "ok = False" "tr' = tr1"
        by (simp_all add: allocate_pieces_loop.simps[of env count spec n])
      with tr1 True show ?thesis by auto
    next
      case False
      with "1.prems"(1) \<open>n < count\<close> call have
        rec: "allocate_pieces_loop env count spec (Suc n) (buf + ms_size (spec n))
                (specs @ [\<lparr>as_ptr = buf, as_size = ms_size (spec n)\<rparr>]) tr1 = (k, ok, specs', tr')"
        by (simp add: allocate_pieces_loop.simps[of env count spec n])
      have b: "buf + ms_size (spec n) = piece_address base spec (Suc n)"
        using "1.prems"(2) by (simp add: piece_address_Suc)
      from "1.IH"[OF \<open>n < count\<close> call[symmetric] refl False rec b] obtain rs where
        rs: "\<forall>j. Suc n \<le> j \<and> j < k \<longrightarrow> rs j \<noteq> NULL"
        and t: "tr' = tr1 @ map (\<lambda>j. commit_call env spec base j (rs j)) [Suc n..<k]
                   @ (if ok then [] else [commit_call env spec base k NULL])"
        by blast
      have nk: "n < k" using alloc_loop_mono[OF rec] by simp
      define rs' where "rs' = rs(n := r)"
      have a: "\<forall>j. n \<le> j \<and> j < k \<longrightarrow> rs' j \<noteq> NULL"
        using rs False by (auto simp: rs'_def)
      have m: "map (\<lambda>j. commit_call env spec base j (rs' j)) [n..<k]
               = commit_call env spec base n r # map (\<lambda>j. commit_call env spec base j (rs j)) [Suc n..<k]"
        using nk by (simp add: upt_conv_Cons rs'_def)
      have "tr' = tr @ map (\<lambda>j. commit_call env spec base j (rs' j)) [n..<k]
                   @ (if ok then [] else [commit_call env spec base k NULL])"
        unfolding m t tr1 by simp
      with a show ?thesis by blast
    qed
  qed
qed

section \<open>The outcomes of siloMultinodeArrayAlloc\<close>

text \<open>
  A call that returns does so in one of five ways: a node did not resolve; nothing was
  granted after rounding; the probe reservation failed; a piece failed to commit; or all
  pieces were committed and submitted.
\<close>

lemma free_pieces_loop_trace:
  "free_pieces_loop specs tr = tr @ map (\<lambda>a. release_call (as_ptr a)) specs"
  by (induction specs arbitrary: tr) (simp_all add: siloMemoryFreeNUMA_def release_call_def)

lemma probe_step:
  "siloWindowsMemoryAllocAtNUMA env A' 0 NULL False False tr = (r, tr1) \<Longrightarrow>
     tr1 = tr @ [probe_call A' r]"
  by (auto simp: siloWindowsMemoryAllocAtNUMA_def probe_call_def Let_def)

lemma siloMultinodeArrayAlloc_outcomes:
  assumes run: "siloMultinodeArrayAlloc env count spec tr = Some (Inr (p, spec', tr'))"
  obtains
    (unresolved) T A where
      "validate_and_round_loop env (unat count) 0 0 0 spec = Inr (False, T, A, spec')"
      "p = NULL" "tr' = tr"
  | (nothing_granted) T where
      "validate_and_round_loop env (unat count) 0 0 0 spec = Inr (True, T, 0, spec')"
      "p = NULL" "tr' = tr"
  | (probe_failed) T A spec1 A' where
      "validate_and_round_loop env (unat count) 0 0 0 spec = Inr (True, T, A, spec1)" "A \<noteq> 0"
      "coverage_padding_loop (ucast (siloWindowsGetAllocationUnitSize env False)) (unat count)
         T A spec1 = Some (A', spec')"
      "p = NULL" "tr' = tr @ [probe_call A' NULL]"
  | (commit_failed) T A spec1 A' base k rs where
      "validate_and_round_loop env (unat count) 0 0 0 spec = Inr (True, T, A, spec1)" "A \<noteq> 0"
      "coverage_padding_loop (ucast (siloWindowsGetAllocationUnitSize env False)) (unat count)
         T A spec1 = Some (A', spec')"
      "base \<noteq> NULL" "k < unat count" "\<forall>j. j < k \<longrightarrow> rs j \<noteq> NULL"
      "p = NULL"
      "tr' = tr @ [probe_call A' base, release_call base]
                @ map (\<lambda>j. commit_call env spec' base j (rs j)) [0..<k]
                @ [commit_call env spec' base k NULL]
                @ map (\<lambda>j. release_call (piece_address base spec' j)) [0..<k]"
  | (success) T A spec1 A' base rs where
      "validate_and_round_loop env (unat count) 0 0 0 spec = Inr (True, T, A, spec1)" "A \<noteq> 0"
      "coverage_padding_loop (ucast (siloWindowsGetAllocationUnitSize env False)) (unat count)
         T A spec1 = Some (A', spec')"
      "base \<noteq> NULL" "0 < unat count" "\<forall>j. j < unat count \<longrightarrow> rs j \<noteq> NULL"
      "p = base"
      "tr' = tr @ [probe_call A' base, release_call base]
                @ map (\<lambda>j. commit_call env spec' base j (rs j)) [0..<unat count]
                @ [siloPointerMapSubmit_call count (map (piece base spec') [0..<unat count])]"
proof -
  define u :: size_t where "u = ucast (siloWindowsGetAllocationUnitSize env False)"
  from run obtain valid T A spec1 where
    v: "validate_and_round_loop env (unat count) 0 0 0 spec = Inr (valid, T, A, spec1)"
    by (auto simp: siloMultinodeArrayAlloc_def Let_def split: sum.splits)
  show thesis
  proof (cases "valid \<and> A \<noteq> 0")
    case False
    show ?thesis
    proof (cases valid)
      case True
      with False have "A = 0" by simp
      with run v True have "p = NULL" "spec' = spec1" "tr' = tr"
        by (simp_all add: siloMultinodeArrayAlloc_def Let_def)
      with v True \<open>A = 0\<close> show ?thesis by (intro nothing_granted[of T]) simp_all
    next
      case False
      with run v have "p = NULL" "spec' = spec1" "tr' = tr"
        by (simp_all add: siloMultinodeArrayAlloc_def Let_def)
      with v False show ?thesis by (intro unresolved[of T A]) simp_all
    qed
  next
    case True
    then have valid: valid and A: "A \<noteq> 0" by simp_all
    from run v valid A obtain A' spec2 where
      pad: "coverage_padding_loop u (unat count) T A spec1 = Some (A', spec2)"
      by (auto simp: siloMultinodeArrayAlloc_def Let_def u_def split: option.splits)
    obtain base tr1 where
      probe: "siloWindowsMemoryAllocAtNUMA env A' 0 NULL False False tr = (base, tr1)"
      by (cases "siloWindowsMemoryAllocAtNUMA env A' 0 NULL False False tr")
    have tr1: "tr1 = tr @ [probe_call A' base]" using probe by (rule probe_step)
    have pos: "0 < unat count"
    proof (rule ccontr)
      assume "\<not> 0 < unat count"
      then have "unat count = 0" by simp
      with v have "A = 0" by (simp add: validate_and_round_loop.simps[of env 0 0])
      with A show False by simp
    qed
    show ?thesis
    proof (cases "base = NULL")
      case True
      with run v valid A pad probe have "p = NULL" "spec' = spec2" "tr' = tr1"
        by (simp_all add: siloMultinodeArrayAlloc_def Let_def u_def[symmetric])
      with v valid A pad tr1 True show ?thesis
        by (intro probe_failed[of T A spec1 A']) (simp_all add: u_def)
    next
      case False
      obtain k ok specs tr3 where
        loop: "allocate_pieces_loop env (unat count) spec2 0 base []
                 (siloMemoryFreeNUMA base A' tr1) = (k, ok, specs, tr3)"
        by (cases "allocate_pieces_loop env (unat count) spec2 0 base []
                 (siloMemoryFreeNUMA base A' tr1)") 
      have b0: "base = piece_address base spec2 0" by (simp add: piece_address_0)
      have s0: "[] = map (piece base spec2) [0..<0]" by simp
      from alloc_loop_pieces[OF loop b0 s0] have
        k: "k \<le> unat count" and ok: "ok \<longleftrightarrow> k = unat count"
        and specs: "specs = map (piece base spec2) [0..<k]"
        by simp_all
      from alloc_loop_trace[OF loop b0] obtain rs where
        rs: "\<forall>j. j < k \<longrightarrow> rs j \<noteq> NULL"
        and tr3: "tr3 = siloMemoryFreeNUMA base A' tr1
                   @ map (\<lambda>j. commit_call env spec2 base j (rs j)) [0..<k]
                   @ (if ok then [] else [commit_call env spec2 base k NULL])"
        by auto
      have tr2: "siloMemoryFreeNUMA base A' tr1 = tr @ [probe_call A' base, release_call base]"
        by (simp add: siloMemoryFreeNUMA_def tr1 release_call_def)
      show ?thesis
      proof (cases ok)
        case True
        with ok have kc: "k = unat count" by simp
        from run v valid A pad probe False loop True
        have r: "p = as_ptr (specs ! 0)" "spec' = spec2"
          "tr' = tr3 @ [siloPointerMapSubmit_call (of_nat k) specs]"
          by (simp_all add: siloMultinodeArrayAlloc_def Let_def u_def[symmetric])
        have p: "p = base" using r(1) specs kc pos by (simp add: piece_def piece_address_0)
        have c: "(of_nat k :: uint32_t) = count" by (simp add: kc)
        show ?thesis
          apply (rule success[of T A spec1 A' base rs])
          using v valid apply simp
          using A apply simp
          using pad r(2) apply (simp add: u_def)
          using False apply simp
          using pos apply simp
          using rs kc apply simp
          using p apply simp
          using r(2,3) tr3 tr2 True c specs kc apply simp
          done
      next
        case notok: False
        with ok k have kc: "k < unat count" by simp
        from run v valid A pad probe False loop notok
        have r: "p = NULL" "spec' = spec2" "tr' = free_pieces_loop specs tr3"
          by (simp_all add: siloMultinodeArrayAlloc_def Let_def u_def[symmetric])
        have f: "map (\<lambda>a. release_call (as_ptr a)) specs
                 = map (\<lambda>j. release_call (piece_address base spec2 j)) [0..<k]"
          by (simp add: specs piece_def)
        show ?thesis
          apply (rule commit_failed[of T A spec1 A' base k rs])
          using v valid apply simp
          using A apply simp
          using pad r(2) apply (simp add: u_def)
          using False apply simp
          using kc apply simp
          using rs apply simp
          using r(1) apply simp
          using r(2,3) tr3 tr2 notok f apply (simp add: free_pieces_loop_trace)
          done
      qed
    qed
  qed
qed

text \<open>
  The first loop, the piece loop and the rollback loop are bounded by \<open>count\<close>, so a call can
  fail to return only in the coverage padding loop. With a unit other than zero it does not
  trap, and when the requested total leaves room for one more unit below \<open>2 ^ 64\<close> it
  returns.
\<close>

lemma validate_loop_no_fault:
  "siloWindowsGetAllocationUnitSize env False \<noteq> 0 \<Longrightarrow>
     \<exists>r. validate_and_round_loop env count i T A spec = Inr r"
proof (induction env count i T A spec rule: validate_and_round_loop.induct)
  case (1 env count i T A spec)
  show ?case
  proof (cases "i < count \<and> \<not> sint (topoGetNUMANodeOSIndex env (ms_numaNode (spec i))) < 0")
    case False
    then show ?thesis by (auto simp: validate_and_round_loop.simps[of env count i])
  next
    case True
    from "1.prems" obtain b where
      b: "siloWindowsRoundRequestedAllocationSize env (ms_size (spec i)) False = Inr b"
      using round_no_fault by blast
    from "1.IH"[OF _ _ b "1.prems"] True obtain r where
      "validate_and_round_loop env count (Suc i) (T + ms_size (spec i)) (A + b)
         (spec(i := spec i\<lparr>ms_size := b\<rparr>)) = Inr r"
      by blast
    with True b have "validate_and_round_loop env count i T A spec = Inr r"
      by (simp add: validate_and_round_loop.simps[of env count i])
    then show ?thesis by blast
  qed
qed

lemma siloMultinodeArrayAlloc_returns:
  assumes unit: "siloWindowsGetAllocationUnitSize env False \<noteq> 0"
    and room: "unat (sum_list (map (\<lambda>j. ms_size (spec j)) [0..<unat count]))
                 + unat (siloWindowsGetAllocationUnitSize env False) \<le> 2 ^ 64"
  shows "\<exists>p spec' tr'. siloMultinodeArrayAlloc env count spec tr = Some (Inr (p, spec', tr'))"
proof -
  define u :: size_t where "u = ucast (siloWindowsGetAllocationUnitSize env False)"
  have u0: "u \<noteq> 0" using unit by (simp add: u_def ucast_unit_eq_0)
  from validate_loop_no_fault[OF unit] obtain valid T A spec1 where
    v: "validate_and_round_loop env (unat count) 0 0 0 spec = Inr (valid, T, A, spec1)"
    by (metis prod_cases4)
  show ?thesis
  proof (cases "valid \<and> A \<noteq> 0")
    case False
    then show ?thesis
    proof (cases valid)
      case True
      with False have "A = 0" by simp
      with v True show ?thesis by (simp add: siloMultinodeArrayAlloc_def)
    next
      case False
      with v show ?thesis by (simp add: siloMultinodeArrayAlloc_def)
    qed
  next
    case True
    then have valid: valid and A: "A \<noteq> 0" by simp_all
    from v valid have v': "validate_and_round_loop env (unat count) 0 0 0 spec = Inr (True, T, A, spec1)"
      by simp
    from validate_loop_totals[OF v']
    have T: "T = sum_list (map (\<lambda>j. ms_size (spec j)) [0..<unat count])" by simp
    have "unat T + unat u \<le> 2 ^ 64" using room by (simp add: T u_def unat_unit_ucast)
    from pad_loop_terminates[OF u0 this] obtain A' spec2 where
      pad: "coverage_padding_loop u (unat count) T A spec1 = Some (A', spec2)"
      by (metis surj_pair)
    show ?thesis
      using v valid A pad
      by (simp add: siloMultinodeArrayAlloc_def Let_def u_def[symmetric] split: prod.splits)
  qed
qed

text \<open>Facts about the calls in a trace and about the pieces of a successful call.\<close>

lemma drop_own_events: "drop (length tr) (tr @ evs) = evs"
  by simp

lemma failed_commit_calls [simp]:
  "failed_commit (commit_call env spec base j r) \<longleftrightarrow> r = NULL"
  "\<not> failed_commit (probe_call A' r)"
  "\<not> failed_commit (release_call q)"
  by (simp_all add: commit_call_def probe_call_def release_call_def MEM_RESERVE_def MEM_COMMIT_def)

lemma commit_attempt_calls [simp]:
  "commit_attempt (commit_call env spec base j r)"
  "\<not> commit_attempt (probe_call A' r)"
  "\<not> commit_attempt (release_call q)"
  by (simp_all add: commit_call_def probe_call_def release_call_def MEM_RESERVE_def MEM_COMMIT_def)

lemma granted_pieces:
  assumes v: "validate_and_round_loop env count 0 0 0 spec = Inr (True, T, A, spec1)"
    and pad: "coverage_padding_loop u count T A spec1 = Some (A', spec')"
    and i: "i < count"
  shows "node_resolves env spec i" and "rounded_in_place env spec spec' i"
proof -
  from validate_loop_success[OF v] i have
    a: "node_resolves env spec i" and b: "rounded_in_place env spec spec1 i" by simp_all
  from pad_loop_result[OF pad] i have "spec' i = spec1 i" by (simp add: padded_def)
  with b show "rounded_in_place env spec spec' i" by (simp add: rounded_in_place_def)
  from a show "node_resolves env spec i" .
qed

lemma padded_total:
  assumes v: "validate_and_round_loop env count 0 0 0 spec = Inr (True, T, A, spec1)"
    and pad: "coverage_padding_loop u count T A spec1 = Some (A', spec')"
  shows "T = sum_list (map (\<lambda>j. ms_size (spec j)) [0..<count])"
    and "T \<le> A'"
    and "\<exists>k. A' = sum_list (map (\<lambda>j. ms_size (spec' j)) [0..<count]) + of_nat k * u"
proof -
  from validate_loop_totals[OF v] have
    T: "T = sum_list (map (\<lambda>j. ms_size (spec j)) [0..<count])"
    and A: "A = sum_list (map (\<lambda>j. ms_size (spec1 j)) [0..<count])" by simp_all
  from pad_loop_result[OF pad] have le: "T \<le> A'" and k: "\<exists>k. A' = A + of_nat k * u"
    and frame: "\<forall>j. j \<noteq> count \<longrightarrow> spec' j = spec1 j"
    by (auto simp: padded_def)
  have same: "map (\<lambda>j. ms_size (spec1 j)) [0..<count] = map (\<lambda>j. ms_size (spec' j)) [0..<count]"
    using frame by (intro map_cong) simp_all
  from A k show "\<exists>k. A' = sum_list (map (\<lambda>j. ms_size (spec' j)) [0..<count]) + of_nat k * u"
    unfolding same by simp
  show "T = sum_list (map (\<lambda>j. ms_size (spec j)) [0..<count])" by (rule T)
  show "T \<le> A'" by (rule le)
qed

lemma piece_contiguous:
  "as_ptr (piece base spec i) + as_size (piece base spec i) = as_ptr (piece base spec (Suc i))"
  by (simp add: piece_def piece_address_Suc)

lemma commit_call_piece:
  assumes "rounded_in_place env spec spec' i"
  shows "commit_call env spec' base i r =
     VirtualAllocExNuma_call (as_ptr (piece base spec' i)) (as_size (piece base spec' i))
       (MEM_RESERVE OR MEM_COMMIT) PAGE_READWRITE
       (topoGetNUMANodeOSIndex env (ms_numaNode (spec i))) r"
  using assms by (simp add: commit_call_def piece_def rounded_in_place_def)

section \<open>Evaluated calls\<close>

text \<open>
  Four calls on the machine with two nodes and the unit 4096, each with two pieces. In
  the first the system grants everything; in the second node 1 has no memory; in the third
  the system has no address space left; in the fourth the second piece names node 7, which
  does not resolve.
\<close>

lemma scenario_run_eval:
  "(case siloMultinodeArrayAlloc (example_env 4096 4096 os_grants_all) 2
            (request [(10000, 0), (5000, 1)]) [] of
       Some (Inr (p, spec', tr')) \<Rightarrow>
         p = 0x10000000 \<and> map (\<lambda>i. ms_size (spec' i)) [0, 1, 2] = [8192, 4096, 4096]
         \<and> tr' = [VirtualAllocExNuma_call NULL 16384 MEM_RESERVE PAGE_READWRITE 0 0x10000000,
                  VirtualFreeEx_call 0x10000000 0 MEM_RELEASE,
                  VirtualAllocExNuma_call 0x10000000 8192 (MEM_RESERVE OR MEM_COMMIT) PAGE_READWRITE 0 0x10000000,
                  VirtualAllocExNuma_call 0x10002000 4096 (MEM_RESERVE OR MEM_COMMIT) PAGE_READWRITE 1 0x10002000,
                  siloPointerMapSubmit_call 2
                    [\<lparr>as_ptr = 0x10000000, as_size = 8192\<rparr>, \<lparr>as_ptr = 0x10002000, as_size = 4096\<rparr>]]
     | _ \<Rightarrow> False)"
  by code_simp

lemma scenario_run:
  "\<exists>spec'. siloMultinodeArrayAlloc (example_env 4096 4096 os_grants_all) 2
            (request [(10000, 0), (5000, 1)]) []
     = Some (Inr (0x10000000, spec',
         [VirtualAllocExNuma_call NULL 16384 MEM_RESERVE PAGE_READWRITE 0 0x10000000,
          VirtualFreeEx_call 0x10000000 0 MEM_RELEASE,
          VirtualAllocExNuma_call 0x10000000 8192 (MEM_RESERVE OR MEM_COMMIT) PAGE_READWRITE 0 0x10000000,
          VirtualAllocExNuma_call 0x10002000 4096 (MEM_RESERVE OR MEM_COMMIT) PAGE_READWRITE 1 0x10002000,
          siloPointerMapSubmit_call 2
            [\<lparr>as_ptr = 0x10000000, as_size = 8192\<rparr>, \<lparr>as_ptr = 0x10002000, as_size = 4096\<rparr>]]))
     \<and> ms_size (spec' 0) = 8192 \<and> ms_size (spec' 1) = 4096 \<and> ms_size (spec' 2) = 4096"
  using scenario_run_eval by (auto split: option.splits sum.splits)

lemma rollback_run_eval:
  "(case siloMultinodeArrayAlloc (example_env 4096 4096 os_node1_exhausted) 2
            (request [(10000, 0), (5000, 1)]) [] of
       Some (Inr (p, spec', tr')) \<Rightarrow>
         p = NULL
         \<and> tr' = [VirtualAllocExNuma_call NULL 16384 MEM_RESERVE PAGE_READWRITE 0 0x10000000,
                  VirtualFreeEx_call 0x10000000 0 MEM_RELEASE,
                  VirtualAllocExNuma_call 0x10000000 8192 (MEM_RESERVE OR MEM_COMMIT) PAGE_READWRITE 0 0x10000000,
                  VirtualAllocExNuma_call 0x10002000 4096 (MEM_RESERVE OR MEM_COMMIT) PAGE_READWRITE 1 NULL,
                  VirtualFreeEx_call 0x10000000 0 MEM_RELEASE]
     | _ \<Rightarrow> False)"
  by code_simp

lemma rollback_run:
  "\<exists>spec'. siloMultinodeArrayAlloc (example_env 4096 4096 os_node1_exhausted) 2
            (request [(10000, 0), (5000, 1)]) []
     = Some (Inr (NULL, spec',
          [VirtualAllocExNuma_call NULL 16384 MEM_RESERVE PAGE_READWRITE 0 0x10000000,
           VirtualFreeEx_call 0x10000000 0 MEM_RELEASE,
           VirtualAllocExNuma_call 0x10000000 8192 (MEM_RESERVE OR MEM_COMMIT) PAGE_READWRITE 0 0x10000000,
           VirtualAllocExNuma_call 0x10002000 4096 (MEM_RESERVE OR MEM_COMMIT) PAGE_READWRITE 1 NULL,
           VirtualFreeEx_call 0x10000000 0 MEM_RELEASE]))"
  using rollback_run_eval by (auto split: option.splits sum.splits)

lemma refused_run_eval:
  "(case siloMultinodeArrayAlloc (example_env 4096 4096 os_refuses_all) 2
            (request [(10000, 0), (5000, 1)]) [] of
       Some (Inr (p, spec', tr')) \<Rightarrow>
         p = NULL
         \<and> tr' = [VirtualAllocExNuma_call NULL 16384 MEM_RESERVE PAGE_READWRITE 0 NULL]
     | _ \<Rightarrow> False)"
  by code_simp

lemma refused_run:
  "\<exists>spec'. siloMultinodeArrayAlloc (example_env 4096 4096 os_refuses_all) 2
            (request [(10000, 0), (5000, 1)]) []
     = Some (Inr (NULL, spec',
          [VirtualAllocExNuma_call NULL 16384 MEM_RESERVE PAGE_READWRITE 0 NULL]))"
  using refused_run_eval by (auto split: option.splits sum.splits)

lemma unresolved_run_eval:
  "(case siloMultinodeArrayAlloc (example_env 4096 4096 os_grants_all) 2
            (request [(10000, 0), (5000, 7)]) [] of
       Some (Inr (p, spec', tr')) \<Rightarrow> p = NULL \<and> tr' = [] \<and> ms_size (spec' 0) = 8192
     | _ \<Rightarrow> False)
   \<and> (case siloMultinodeArrayAlloc (example_env 0 0 os_grants_all) 2
            (request [(10000, 0), (5000, 7)]) [] of
       Some (Inl f) \<Rightarrow> f = DivideByZero
     | _ \<Rightarrow> False)"
  by code_simp

section \<open>Coverage of the requested total\<close>

text \<open>
  Claim C1 says that after the padding the sizes of the pieces committed and recorded add up
  to at least the requested total. For the pieces \<open>(node 0, 10000)\<close> and \<open>(node 1, 5000)\<close>
  with the unit 4096 the call succeeds and submits the pieces of sizes 8192 and 4096:
  12288 bytes for 15000 requested. The padding loop adds to \<open>spec[count]\<close>, not to the last
  piece \<open>spec[count - 1]\<close>, so no recorded piece grows.
\<close>

theorem coverage_lost_in_scenario:
  "returned_pointer (siloMultinodeArrayAlloc (example_env 4096 4096 os_grants_all) 2
            (request [(10000, 0), (5000, 1)]) []) = Some 0x10000000
   \<and> map_option last (trace_after (siloMultinodeArrayAlloc (example_env 4096 4096 os_grants_all) 2
            (request [(10000, 0), (5000, 1)]) []))
       = Some (siloPointerMapSubmit_call 2
                 [\<lparr>as_ptr = 0x10000000, as_size = 8192\<rparr>, \<lparr>as_ptr = 0x10002000, as_size = 4096\<rparr>])
   \<and> unat (8192 :: size_t) + unat (4096 :: size_t) < unat (10000 :: size_t) + unat (5000 :: size_t)"
  using scenario_run by (auto simp: trace_after_def returned_pointer_def)

text \<open>
  Claim C2 expects the final sizes \<open>[8192, 8192]\<close> in the caller's array and in the commits
  of this scenario. The call leaves \<open>[8192, 4096]\<close> in the array, reserves 16384 bytes for
  the probe, and commits 8192 bytes on node 0 and 4096 bytes on node 1.
\<close>

theorem scenario_final_sizes:
  "size_after (siloMultinodeArrayAlloc (example_env 4096 4096 os_grants_all) 2
            (request [(10000, 0), (5000, 1)]) []) 0 = Some 8192
   \<and> size_after (siloMultinodeArrayAlloc (example_env 4096 4096 os_grants_all) 2
            (request [(10000, 0), (5000, 1)]) []) 1 = Some 4096
   \<and> trace_after (siloMultinodeArrayAlloc (example_env 4096 4096 os_grants_all) 2
            (request [(10000, 0), (5000, 1)]) [])
       = Some [VirtualAllocExNuma_call NULL 16384 MEM_RESERVE PAGE_READWRITE 0 0x10000000,
               VirtualFreeEx_call 0x10000000 0 MEM_RELEASE,
               VirtualAllocExNuma_call 0x10000000 8192 (MEM_RESERVE OR MEM_COMMIT) PAGE_READWRITE 0 0x10000000,
               VirtualAllocExNuma_call 0x10002000 4096 (MEM_RESERVE OR MEM_COMMIT) PAGE_READWRITE 1 0x10002000,
               siloPointerMapSubmit_call 2
                 [\<lparr>as_ptr = 0x10000000, as_size = 8192\<rparr>, \<lparr>as_ptr = 0x10002000, as_size = 4096\<rparr>]]"
  using scenario_run by (auto simp: size_after_def trace_after_def)

text \<open>
  Claim C9 says that every access to the caller's array uses an index below \<open>count\<close>. In
  the scenario \<open>count\<close> is 2, and the call changes the size field of slot 2, which lies behind
  the array, from 0 to 4096.
\<close>

theorem padding_written_past_the_array:
  "unat (2 :: uint32_t) = 2
   \<and> ms_size (request [(10000, 0), (5000, 1)] 2) = 0
   \<and> size_after (siloMultinodeArrayAlloc (example_env 4096 4096 os_grants_all) 2
            (request [(10000, 0), (5000, 1)]) []) 2 = Some 4096"
  using scenario_run by (auto simp: size_after_def request_def)

section \<open>Unresolvable nodes\<close>

text \<open>
  Claim C6, amended. If the allocation unit is not zero and some piece of the request
  names a node that does not resolve, the call returns \<open>NULL\<close> and leaves the trace as it
  was: no reservation, no commit, no submission to the registry. Its only effect is on the
  caller's array: with \<open>k'\<close> the first piece whose node does not resolve, the slots from \<open>k'\<close>
  on are unchanged and the sizes of the pieces before \<open>k'\<close> have been replaced by their
  rounded values.
\<close>

theorem unresolved_node_returns_NULL:
  assumes "siloWindowsGetAllocationUnitSize env False \<noteq> 0"
    and "k < unat count" and "\<not> node_resolves env spec k"
  shows "\<exists>spec' k'. siloMultinodeArrayAlloc env count spec tr = Some (Inr (NULL, spec', tr))
           \<and> k' \<le> k \<and> \<not> node_resolves env spec k'
           \<and> (\<forall>j. k' \<le> j \<longrightarrow> spec' j = spec j)
           \<and> (\<forall>j. j < k' \<longrightarrow> node_resolves env spec j \<and> rounded_in_place env spec spec' j)"
proof -
  from validate_loop_invalid[OF assms(1) _ assms(2,3), of 0 0 0] obtain T A spec' where
    v: "validate_and_round_loop env (unat count) 0 0 0 spec = Inr (False, T, A, spec')"
    by auto
  from validate_loop_failure[OF v] obtain k' where
    k': "k' < unat count" "\<not> node_resolves env spec k'"
    and frame: "\<forall>j. k' \<le> j \<longrightarrow> spec' j = spec j"
    and before: "\<forall>j. j < k' \<longrightarrow> node_resolves env spec j \<and> rounded_in_place env spec spec' j"
    by auto
  have "k' \<le> k"
  proof (rule ccontr)
    assume "\<not> k' \<le> k"
    then have "k < k'" by simp
    with before have "node_resolves env spec k" by simp
    with assms(3) show False by simp
  qed
  moreover have "siloMultinodeArrayAlloc env count spec tr = Some (Inr (NULL, spec', tr))"
    using v by (simp add: siloMultinodeArrayAlloc_def)
  ultimately show ?thesis using k' frame before by blast
qed

theorem unresolved_node_returns_NULL_witness:
  "siloWindowsGetAllocationUnitSize (example_env 4096 4096 os_grants_all) False \<noteq> 0
   \<and> 1 < unat (2 :: uint32_t)
   \<and> \<not> node_resolves (example_env 4096 4096 os_grants_all) (request [(10000, 0), (5000, 7)]) 1
   \<and> (\<exists>spec' k'. siloMultinodeArrayAlloc (example_env 4096 4096 os_grants_all) 2
                     (request [(10000, 0), (5000, 7)]) [] = Some (Inr (NULL, spec', []))
          \<and> k' \<le> 1
          \<and> \<not> node_resolves (example_env 4096 4096 os_grants_all) (request [(10000, 0), (5000, 7)]) k'
          \<and> (\<forall>j. k' \<le> j \<longrightarrow> spec' j = request [(10000, 0), (5000, 7)] j)
          \<and> (\<forall>j. j < k' \<longrightarrow>
                node_resolves (example_env 4096 4096 os_grants_all) (request [(10000, 0), (5000, 7)]) j
                \<and> rounded_in_place (example_env 4096 4096 os_grants_all)
                     (request [(10000, 0), (5000, 7)]) spec' j))"
proof -
  have a: "siloWindowsGetAllocationUnitSize (example_env 4096 4096 os_grants_all) False \<noteq> 0"
    by (simp add: unit_example_env)
  have b: "1 < unat (2 :: uint32_t)" by simp
  have c: "\<not> node_resolves (example_env 4096 4096 os_grants_all) (request [(10000, 0), (5000, 7)]) 1"
    by (simp add: node_resolves_def example_env_def request_def)
  show ?thesis
    using a b c unresolved_node_returns_NULL [OF a b c, of "[]"] by simp
qed

text \<open>
  Claim C6 as stated excludes every side effect. With the pieces \<open>(node 0, 10000)\<close> and
  \<open>(node 7, 5000)\<close> the call returns \<open>NULL\<close>, but the size of the first piece in the caller's
  array has become 8192: the first loop rounds each size in place while it checks the nodes.
  On a system that reports the unit 0 the same call traps in the rounding of the first piece
  before it reaches the second.
\<close>

theorem unresolved_node_counterexample:
  "ms_size (request [(10000, 0), (5000, 7)] 0) = 10000
   \<and> returned_pointer (siloMultinodeArrayAlloc (example_env 4096 4096 os_grants_all) 2
            (request [(10000, 0), (5000, 7)]) []) = Some NULL
   \<and> size_after (siloMultinodeArrayAlloc (example_env 4096 4096 os_grants_all) 2
            (request [(10000, 0), (5000, 7)]) []) 0 = Some 8192
   \<and> trapped (siloMultinodeArrayAlloc (example_env 0 0 os_grants_all) 2
            (request [(10000, 0), (5000, 7)]) []) = Some DivideByZero"
  using unresolved_run_eval
  by (auto simp: returned_pointer_def size_after_def trapped_def request_def
           split: option.splits sum.splits)

section \<open>Termination of the coverage padding loop\<close>

text \<open>
  Claim C10, amended. For a unit \<open>u > 0\<close> and a requested total \<open>T\<close> with
  \<open>T + u \<le> 2 ^ 64\<close>, the coverage padding loop returns from every running total \<open>A\<close>: the
  total it returns is \<open>A\<close> plus a number of units and is at least \<open>T\<close>. Under this bound the
  running total cannot wrap around before it reaches \<open>T\<close>.
\<close>

theorem coverage_padding_loop_terminates:
  assumes "u \<noteq> 0" and "unat T + unat u \<le> 2 ^ 64"
  shows "\<exists>A' spec'. coverage_padding_loop u count T A spec = Some (A', spec')
           \<and> T \<le> A' \<and> (\<exists>k. A' = A + of_nat k * u)"
proof -
  from pad_loop_terminates[OF assms] obtain y where
    y: "coverage_padding_loop u count T A spec = Some y" by blast
  from pad_loop_result[OF y] have "T \<le> fst y" and "\<exists>k. fst y = A + of_nat k * u"
    by (auto simp: padded_def)
  with y show ?thesis by (cases y) auto
qed

theorem coverage_padding_loop_terminates_witness:
  "(4096 :: size_t) \<noteq> 0 \<and> unat (15000 :: size_t) + unat (4096 :: size_t) \<le> 2 ^ 64
   \<and> (\<exists>A' spec'. coverage_padding_loop 4096 2 15000 12288 (request [(8192, 0), (4096, 1)])
                      = Some (A', spec')
         \<and> 15000 \<le> A' \<and> (\<exists>k. A' = 12288 + of_nat k * 4096))"
proof -
  have a: "(4096 :: size_t) \<noteq> 0" by simp
  have b: "unat (15000 :: size_t) + unat (4096 :: size_t) \<le> 2 ^ 64" by simp
  show ?thesis
    using a b coverage_padding_loop_terminates [OF a b, of 2 12288 "request [(8192, 0), (4096, 1)]"]
    by simp
qed

text \<open>
  Claim C10 as stated fails when the requested total lies within one unit of \<open>2 ^ 64\<close>.
  With the unit 65536 and the pieces \<open>(node 0, 32767)\<close> and \<open>(node 1, 2 ^ 64 - 65537)\<close> the
  requested total is \<open>2 ^ 64 - 32770\<close> and the rounded total is \<open>2 ^ 64 - 65536\<close>; adding
  the unit wraps the running total to 0, it stays a multiple of 65536, and no multiple of
  65536 below \<open>2 ^ 64\<close> reaches the requested total. The call does not return.
\<close>

lemma wrap_validate:
  "(case validate_and_round_loop (example_env 4096 65536 os_grants_all) 2 0 0 0
           (request [(32767, 0), (0xFFFFFFFFFFFEFFFF, 1)]) of
      Inr (valid, T, A, spec1) \<Rightarrow> valid \<and> T = 0xFFFFFFFFFFFF7FFE \<and> A = 0xFFFFFFFFFFFF0000
    | _ \<Rightarrow> False)"
  by code_simp

lemma wrap_state: "wraps_forever 65536 0xFFFFFFFFFFFF7FFE 0xFFFFFFFFFFFF0000"
  by (simp add: wraps_forever_def)

theorem coverage_padding_loop_counterexample:
  "siloWindowsGetAllocationUnitSize (example_env 4096 65536 os_grants_all) False = 65536
   \<and> siloMultinodeArrayAlloc (example_env 4096 65536 os_grants_all) 2
       (request [(32767, 0), (0xFFFFFFFFFFFEFFFF, 1)]) [] = None"
proof -
  from wrap_validate obtain spec1 where
    v: "validate_and_round_loop (example_env 4096 65536 os_grants_all) 2 0 0 0
           (request [(32767, 0), (0xFFFFFFFFFFFEFFFF, 1)])
        = Inr (True, 0xFFFFFFFFFFFF7FFE, 0xFFFFFFFFFFFF0000, spec1)"
    by (auto split: sum.splits)
  have d: "coverage_padding_loop 65536 2 0xFFFFFFFFFFFF7FFE 0xFFFFFFFFFFFF0000 spec1 = None"
    by (rule pad_loop_diverges[OF wrap_state])
  show ?thesis
    using v d by (simp add: siloMultinodeArrayAlloc_def unit_example_env)
qed

section \<open>The probe reservation\<close>

text \<open>
  Claim C7. A call that returns has either made no call to the operating system (and
  returns \<open>NULL\<close>), or its first call is the probe: a reservation without commit, at an
  address left to the system, on node 0, of the padded total \<open>A'\<close>, which is the sum of the
  rounded sizes plus the units added by the coverage padding, and at least the requested
  total. If the probe returns \<open>NULL\<close>, the call returns \<open>NULL\<close> and makes no further call, so
  no piece is committed. Otherwise its next call releases the probe reservation; the pieces
  are committed only after that.
\<close>

theorem probe_reservation_first:
  assumes "siloMultinodeArrayAlloc env count spec tr = Some (Inr (p, spec', tr'))"
  shows "(p = NULL \<and> tr' = tr)
       \<or> (\<exists>A' base rest.
            sum_list (map (\<lambda>j. ms_size (spec j)) [0..<unat count]) \<le> A'
          \<and> (\<exists>k. A' = sum_list (map (\<lambda>j. ms_size (spec' j)) [0..<unat count])
                        + of_nat k * ucast (siloWindowsGetAllocationUnitSize env False))
          \<and> tr' = tr @ VirtualAllocExNuma_call NULL A' MEM_RESERVE PAGE_READWRITE 0 base # rest
          \<and> (base = NULL \<longrightarrow> p = NULL \<and> rest = [])
          \<and> (base \<noteq> NULL \<longrightarrow> (\<exists>rest'. rest = VirtualFreeEx_call base 0 MEM_RELEASE # rest')))"
  using assms
proof (cases rule: siloMultinodeArrayAlloc_outcomes)
  case (unresolved T A)
  then show ?thesis by simp
next
  case (nothing_granted T)
  then show ?thesis by simp
next
  case (probe_failed T A spec1 A')
  note tot = padded_total[OF probe_failed(1,3)]
  show ?thesis
    apply (rule disjI2)
    apply (rule exI[of _ A'], rule exI[of _ NULL], rule exI[of _ "[]"])
    using tot probe_failed(4,5) by (simp add: probe_call_def)
next
  case (commit_failed T A spec1 A' base k rs)
  note tot = padded_total[OF commit_failed(1,3)]
  show ?thesis
    apply (rule disjI2)
    apply (rule exI[of _ A'], rule exI[of _ base])
    apply (rule exI[of _ "release_call base # map (\<lambda>j. commit_call env spec' base j (rs j)) [0..<k]
                @ [commit_call env spec' base k NULL]
                @ map (\<lambda>j. release_call (piece_address base spec' j)) [0..<k]"])
    using tot commit_failed(4,8) by (simp add: probe_call_def release_call_def)
next
  case (success T A spec1 A' base rs)
  note tot = padded_total[OF success(1,3)]
  show ?thesis
    apply (rule disjI2)
    apply (rule exI[of _ A'], rule exI[of _ base])
    apply (rule exI[of _ "release_call base # map (\<lambda>j. commit_call env spec' base j (rs j)) [0..<unat count]
                @ [siloPointerMapSubmit_call count (map (piece base spec') [0..<unat count])]"])
    using tot success(4,8) by (simp add: probe_call_def release_call_def)
qed

theorem probe_reservation_first_witness:
  "(\<exists>p spec' tr'.
     siloMultinodeArrayAlloc (example_env 4096 4096 os_grants_all) 2
        (request [(10000, 0), (5000, 1)]) [] = Some (Inr (p, spec', tr'))
   \<and> p \<noteq> NULL
   \<and> ((p = NULL \<and> tr' = [])
       \<or> (\<exists>A' base rest.
            sum_list (map (\<lambda>j. ms_size (request [(10000, 0), (5000, 1)] j)) [0..<unat (2 :: uint32_t)]) \<le> A'
          \<and> (\<exists>k. A' = sum_list (map (\<lambda>j. ms_size (spec' j)) [0..<unat (2 :: uint32_t)])
                        + of_nat k * ucast (siloWindowsGetAllocationUnitSize
                                              (example_env 4096 4096 os_grants_all) False))
          \<and> tr' = [] @ VirtualAllocExNuma_call NULL A' MEM_RESERVE PAGE_READWRITE 0 base # rest
          \<and> (base = NULL \<longrightarrow> p = NULL \<and> rest = [])
          \<and> (base \<noteq> NULL \<longrightarrow> (\<exists>rest'. rest = VirtualFreeEx_call base 0 MEM_RELEASE # rest')))))
   \<and> (\<exists>p spec' tr'.
     siloMultinodeArrayAlloc (example_env 4096 4096 os_refuses_all) 2
        (request [(10000, 0), (5000, 1)]) [] = Some (Inr (p, spec', tr'))
   \<and> tr' \<noteq> []
   \<and> ((p = NULL \<and> tr' = [])
       \<or> (\<exists>A' base rest.
            sum_list (map (\<lambda>j. ms_size (request [(10000, 0), (5000, 1)] j)) [0..<unat (2 :: uint32_t)]) \<le> A'
          \<and> (\<exists>k. A' = sum_list (map (\<lambda>j. ms_size (spec' j)) [0..<unat (2 :: uint32_t)])
                        + of_nat k * ucast (siloWindowsGetAllocationUnitSize
                                              (example_env 4096 4096 os_refuses_all) False))
          \<and> tr' = [] @ VirtualAllocExNuma_call NULL A' MEM_RESERVE PAGE_READWRITE 0 base # rest
          \<and> (base = NULL \<longrightarrow> p = NULL \<and> rest = [])
          \<and> (base \<noteq> NULL \<longrightarrow> (\<exists>rest'. rest = VirtualFreeEx_call base 0 MEM_RELEASE # rest')))))"
proof -
  from scenario_run obtain spec' tr' where
    run: "siloMultinodeArrayAlloc (example_env 4096 4096 os_grants_all) 2
            (request [(10000, 0), (5000, 1)]) [] = Some (Inr (0x10000000, spec', tr'))"
    by blast
  have ne: "(0x10000000 :: pointer) \<noteq> NULL" by simp
  from refused_run obtain spec'' tr'' where
    run': "siloMultinodeArrayAlloc (example_env 4096 4096 os_refuses_all) 2
            (request [(10000, 0), (5000, 1)]) [] = Some (Inr (NULL, spec'', tr''))"
    and ne': "tr'' \<noteq> []"
    by blast
  from run ne probe_reservation_first [OF run] have first: "\<exists>p spec' tr'.
     siloMultinodeArrayAlloc (example_env 4096 4096 os_grants_all) 2
        (request [(10000, 0), (5000, 1)]) [] = Some (Inr (p, spec', tr'))
   \<and> p \<noteq> NULL
   \<and> ((p = NULL \<and> tr' = [])
       \<or> (\<exists>A' base rest.
            sum_list (map (\<lambda>j. ms_size (request [(10000, 0), (5000, 1)] j)) [0..<unat (2 :: uint32_t)]) \<le> A'
          \<and> (\<exists>k. A' = sum_list (map (\<lambda>j. ms_size (spec' j)) [0..<unat (2 :: uint32_t)])
                        + of_nat k * ucast (siloWindowsGetAllocationUnitSize
                                              (example_env 4096 4096 os_grants_all) False))
          \<and> tr' = [] @ VirtualAllocExNuma_call NULL A' MEM_RESERVE PAGE_READWRITE 0 base # rest
          \<and> (base = NULL \<longrightarrow> p = NULL \<and> rest = [])
          \<and> (base \<noteq> NULL \<longrightarrow> (\<exists>rest'. rest = VirtualFreeEx_call base 0 MEM_RELEASE # rest'))))"
    by blast
  from run' ne' probe_reservation_first [OF run'] have second: "\<exists>p spec' tr'.
     siloMultinodeArrayAlloc (example_env 4096 4096 os_refuses_all) 2
        (request [(10000, 0), (5000, 1)]) [] = Some (Inr (p, spec', tr'))
   \<and> tr' \<noteq> []
   \<and> ((p = NULL \<and> tr' = [])
       \<or> (\<exists>A' base rest.
            sum_list (map (\<lambda>j. ms_size (request [(10000, 0), (5000, 1)] j)) [0..<unat (2 :: uint32_t)]) \<le> A'
          \<and> (\<exists>k. A' = sum_list (map (\<lambda>j. ms_size (spec' j)) [0..<unat (2 :: uint32_t)])
                        + of_nat k * ucast (siloWindowsGetAllocationUnitSize
                                              (example_env 4096 4096 os_refuses_all) False))
          \<and> tr' = [] @ VirtualAllocExNuma_call NULL A' MEM_RESERVE PAGE_READWRITE 0 base # rest
          \<and> (base = NULL \<longrightarrow> p = NULL \<and> rest = [])
          \<and> (base \<noteq> NULL \<longrightarrow> (\<exists>rest'. rest = VirtualFreeEx_call base 0 MEM_RELEASE # rest'))))"
    by blast
  from first second show ?thesis by (rule conjI)
qed

section \<open>Rollback\<close>

text \<open>
  Claim C4. If a call returns and one of the reserve-and-commit calls it made returned
  \<open>NULL\<close>, then the call returns \<open>NULL\<close>; the failed commit, of piece \<open>k\<close>, is the last commit
  attempted; the pieces \<open>0 .. k - 1\<close>, which were committed, are released by the rollback loop,
  which passes the recorded address and size of each to \<open>siloMemoryFreeNUMA\<close> (the release
  itself takes the address only); and nothing is submitted to the registry.
\<close>

theorem failed_commit_rolls_back:
  assumes "siloMultinodeArrayAlloc env count spec tr = Some (Inr (p, spec', tr'))"
    and "\<exists>e \<in> set (drop (length tr) tr'). failed_commit e"
  shows "p = NULL
       \<and> (\<exists>A' base k rs. base \<noteq> NULL \<and> k < unat count \<and> (\<forall>j. j < k \<longrightarrow> rs j \<noteq> NULL)
            \<and> tr' = free_pieces_loop (map (piece base spec') [0..<k])
                      (tr @ [probe_call A' base, release_call base]
                          @ map (\<lambda>j. commit_call env spec' base j (rs j)) [0..<k]
                          @ [commit_call env spec' base k NULL])
            \<and> tr' = tr @ [probe_call A' base, release_call base]
                        @ map (\<lambda>j. commit_call env spec' base j (rs j)) [0..<k]
                        @ [commit_call env spec' base k NULL]
                        @ map (\<lambda>j. VirtualFreeEx_call (piece_address base spec' j) 0 MEM_RELEASE) [0..<k])
       \<and> (\<forall>n ps. siloPointerMapSubmit_call n ps \<notin> set (drop (length tr) tr'))"
  using assms(1)
proof (cases rule: siloMultinodeArrayAlloc_outcomes)
  case (unresolved T A)
  with assms(2) show ?thesis by simp
next
  case (nothing_granted T)
  with assms(2) show ?thesis by simp
next
  case (probe_failed T A spec1 A')
  with assms(2) show ?thesis by simp
next
  case (success T A spec1 A' base rs)
  from assms(2) have "\<exists>e \<in> set ([probe_call A' base, release_call base]
                @ map (\<lambda>j. commit_call env spec' base j (rs j)) [0..<unat count]
                @ [siloPointerMapSubmit_call count (map (piece base spec') [0..<unat count])]). failed_commit e"
    unfolding success(8) drop_own_events .
  with success(6) show ?thesis by auto
next
  case (commit_failed T A spec1 A' base k rs)
  have f: "map (\<lambda>a. release_call (as_ptr a)) (map (piece base spec') [0..<k])
           = map (\<lambda>j. release_call (piece_address base spec' j)) [0..<k]"
    by (simp add: piece_def)
  have t1: "tr' = free_pieces_loop (map (piece base spec') [0..<k])
                      (tr @ [probe_call A' base, release_call base]
                          @ map (\<lambda>j. commit_call env spec' base j (rs j)) [0..<k]
                          @ [commit_call env spec' base k NULL])"
    unfolding free_pieces_loop_trace f commit_failed(8) by simp
  have t2: "tr' = tr @ [probe_call A' base, release_call base]
                        @ map (\<lambda>j. commit_call env spec' base j (rs j)) [0..<k]
                        @ [commit_call env spec' base k NULL]
                        @ map (\<lambda>j. VirtualFreeEx_call (piece_address base spec' j) 0 MEM_RELEASE) [0..<k]"
    unfolding commit_failed(8) by (simp add: release_call_def)
  have none: "\<forall>n ps. siloPointerMapSubmit_call n ps \<notin> set (drop (length tr) tr')"
    unfolding commit_failed(8) drop_own_events
    by (auto simp: probe_call_def release_call_def commit_call_def)
  have ex: "\<exists>A' base k rs. base \<noteq> NULL \<and> k < unat count \<and> (\<forall>j. j < k \<longrightarrow> rs j \<noteq> NULL)
            \<and> tr' = free_pieces_loop (map (piece base spec') [0..<k])
                      (tr @ [probe_call A' base, release_call base]
                          @ map (\<lambda>j. commit_call env spec' base j (rs j)) [0..<k]
                          @ [commit_call env spec' base k NULL])
            \<and> tr' = tr @ [probe_call A' base, release_call base]
                        @ map (\<lambda>j. commit_call env spec' base j (rs j)) [0..<k]
                        @ [commit_call env spec' base k NULL]
                        @ map (\<lambda>j. VirtualFreeEx_call (piece_address base spec' j) 0 MEM_RELEASE) [0..<k]"
    apply (rule exI[of _ A'], rule exI[of _ base], rule exI[of _ k], rule exI[of _ rs])
    using commit_failed(4,5,6) t1 t2 by blast
  from commit_failed(7) ex none show ?thesis by blast
qed

theorem failed_commit_rolls_back_witness:
  "\<exists>p spec' tr'.
     siloMultinodeArrayAlloc (example_env 4096 4096 os_node1_exhausted) 2
        (request [(10000, 0), (5000, 1)]) [] = Some (Inr (p, spec', tr'))
   \<and> (\<exists>e \<in> set (drop (length ([] :: event list)) tr'). failed_commit e)
   \<and> p = NULL
   \<and> (\<exists>A' base k rs. base \<noteq> NULL \<and> k < unat (2 :: uint32_t) \<and> (\<forall>j. j < k \<longrightarrow> rs j \<noteq> NULL)
            \<and> tr' = free_pieces_loop (map (piece base spec') [0..<k])
                      ([] @ [probe_call A' base, release_call base]
                          @ map (\<lambda>j. commit_call (example_env 4096 4096 os_node1_exhausted) spec' base j (rs j)) [0..<k]
                          @ [commit_call (example_env 4096 4096 os_node1_exhausted) spec' base k NULL])
            \<and> tr' = [] @ [probe_call A' base, release_call base]
                        @ map (\<lambda>j. commit_call (example_env 4096 4096 os_node1_exhausted) spec' base j (rs j)) [0..<k]
                        @ [commit_call (example_env 4096 4096 os_node1_exhausted) spec' base k NULL]
                        @ map (\<lambda>j. VirtualFreeEx_call (piece_address base spec' j) 0 MEM_RELEASE) [0..<k])
   \<and> (\<forall>n ps. siloPointerMapSubmit_call n ps \<notin> set (drop (length ([] :: event list)) tr'))"
proof -
  from rollback_run obtain spec' tr' where
    run: "siloMultinodeArrayAlloc (example_env 4096 4096 os_node1_exhausted) 2
            (request [(10000, 0), (5000, 1)]) [] = Some (Inr (NULL, spec', tr'))"
    and tr': "tr' = [VirtualAllocExNuma_call NULL 16384 MEM_RESERVE PAGE_READWRITE 0 0x10000000,
           VirtualFreeEx_call 0x10000000 0 MEM_RELEASE,
           VirtualAllocExNuma_call 0x10000000 8192 (MEM_RESERVE OR MEM_COMMIT) PAGE_READWRITE 0 0x10000000,
           VirtualAllocExNuma_call 0x10002000 4096 (MEM_RESERVE OR MEM_COMMIT) PAGE_READWRITE 1 NULL,
           VirtualFreeEx_call 0x10000000 0 MEM_RELEASE]"
    by blast
  have failed: "\<exists>e \<in> set (drop (length ([] :: event list)) tr'). failed_commit e"
    by (simp add: tr')
  from run failed failed_commit_rolls_back [OF run failed] show ?thesis by blast
qed

section \<open>Contiguity\<close>

text \<open>
  Claim C5. A successful call (one that returns a pointer other than \<open>NULL\<close>) has recorded
  and submitted one piece per requested piece, such that, in \<open>size_t\<close> arithmetic, the address
  of each piece plus its size is the address of the next; the reserve-and-commit call for
  piece \<open>i\<close> asked for exactly the recorded address and size on the index that the node of
  piece \<open>i\<close> resolves to, and did not return \<open>NULL\<close>; the recorded size is the rounded size of
  the request; and the pointer returned is the address of the first piece.
\<close>

theorem pieces_contiguous:
  assumes "siloMultinodeArrayAlloc env count spec tr = Some (Inr (p, spec', tr'))"
    and "p \<noteq> NULL"
  shows "\<exists>pieces rs. length pieces = unat count \<and> 0 < unat count
      \<and> p = as_ptr (pieces ! 0)
      \<and> (\<forall>i. Suc i < unat count \<longrightarrow>
            as_ptr (pieces ! i) + as_size (pieces ! i) = as_ptr (pieces ! Suc i))
      \<and> (\<forall>i. i < unat count \<longrightarrow>
            node_resolves env spec i
          \<and> siloWindowsRoundRequestedAllocationSize env (ms_size (spec i)) False
               = Inr (as_size (pieces ! i))
          \<and> rs i \<noteq> NULL
          \<and> VirtualAllocExNuma_call (as_ptr (pieces ! i)) (as_size (pieces ! i))
               (MEM_RESERVE OR MEM_COMMIT) PAGE_READWRITE
               (topoGetNUMANodeOSIndex env (ms_numaNode (spec i))) (rs i)
              \<in> set (drop (length tr) tr'))
      \<and> last tr' = siloPointerMapSubmit_call count pieces"
  using assms(1)
proof (cases rule: siloMultinodeArrayAlloc_outcomes)
  case (unresolved T A)
  with assms(2) show ?thesis by simp
next
  case (nothing_granted T)
  with assms(2) show ?thesis by simp
next
  case (probe_failed T A spec1 A')
  with assms(2) show ?thesis by simp
next
  case (commit_failed T A spec1 A' base k rs)
  with assms(2) show ?thesis by simp
next
  case (success T A spec1 A' base rs)
  define pieces where "pieces = map (piece base spec') [0..<unat count]"
  have len: "length pieces = unat count" by (simp add: pieces_def)
  have nth: "\<And>i. i < unat count \<Longrightarrow> pieces ! i = piece base spec' i"
    by (simp add: pieces_def)
  have first: "p = as_ptr (pieces ! 0)"
    using success(5,7) by (simp add: nth piece_def piece_address_0)
  have contig: "\<forall>i. Suc i < unat count \<longrightarrow>
            as_ptr (pieces ! i) + as_size (pieces ! i) = as_ptr (pieces ! Suc i)"
    by (simp add: nth piece_contiguous)
  have each: "\<forall>i. i < unat count \<longrightarrow>
            node_resolves env spec i
          \<and> siloWindowsRoundRequestedAllocationSize env (ms_size (spec i)) False
               = Inr (as_size (pieces ! i))
          \<and> rs i \<noteq> NULL
          \<and> VirtualAllocExNuma_call (as_ptr (pieces ! i)) (as_size (pieces ! i))
               (MEM_RESERVE OR MEM_COMMIT) PAGE_READWRITE
               (topoGetNUMANodeOSIndex env (ms_numaNode (spec i))) (rs i)
              \<in> set (drop (length tr) tr')"
  proof (intro allI impI)
    fix i assume i: "i < unat count"
    note g = granted_pieces[OF success(1,3) i]
    have a: "siloWindowsRoundRequestedAllocationSize env (ms_size (spec i)) False
               = Inr (as_size (pieces ! i))"
      using g(2) i by (simp add: nth piece_def rounded_in_place_def)
    have "commit_call env spec' base i (rs i) \<in> set (drop (length tr) tr')"
      unfolding success(8) drop_own_events using i by simp
    then have b: "VirtualAllocExNuma_call (as_ptr (pieces ! i)) (as_size (pieces ! i))
               (MEM_RESERVE OR MEM_COMMIT) PAGE_READWRITE
               (topoGetNUMANodeOSIndex env (ms_numaNode (spec i))) (rs i)
              \<in> set (drop (length tr) tr')"
      using i by (simp add: commit_call_piece[OF g(2)] nth)
    from g(1) a success(6) i b
    show "node_resolves env spec i
          \<and> siloWindowsRoundRequestedAllocationSize env (ms_size (spec i)) False
               = Inr (as_size (pieces ! i))
          \<and> rs i \<noteq> NULL
          \<and> VirtualAllocExNuma_call (as_ptr (pieces ! i)) (as_size (pieces ! i))
               (MEM_RESERVE OR MEM_COMMIT) PAGE_READWRITE
               (topoGetNUMANodeOSIndex env (ms_numaNode (spec i))) (rs i)
              \<in> set (drop (length tr) tr')"
      by blast
  qed
  have final: "last tr' = siloPointerMapSubmit_call count pieces"
    unfolding success(8) by (simp add: pieces_def)
  show ?thesis
    apply (rule exI[of _ pieces], rule exI[of _ rs])
    using len success(5) first contig each final by blast
qed

theorem pieces_contiguous_witness:
  "\<exists>p spec' tr'.
     siloMultinodeArrayAlloc (example_env 4096 4096 os_grants_all) 2
        (request [(10000, 0), (5000, 1)]) [] = Some (Inr (p, spec', tr'))
   \<and> p \<noteq> NULL
   \<and> (\<exists>pieces rs. length pieces = unat (2 :: uint32_t) \<and> 0 < unat (2 :: uint32_t)
      \<and> p = as_ptr (pieces ! 0)
      \<and> (\<forall>i. Suc i < unat (2 :: uint32_t) \<longrightarrow>
            as_ptr (pieces ! i) + as_size (pieces ! i) = as_ptr (pieces ! Suc i))
      \<and> (\<forall>i. i < unat (2 :: uint32_t) \<longrightarrow>
            node_resolves (example_env 4096 4096 os_grants_all) (request [(10000, 0), (5000, 1)]) i
          \<and> siloWindowsRoundRequestedAllocationSize (example_env 4096 4096 os_grants_all)
               (ms_size (request [(10000, 0), (5000, 1)] i)) False
               = Inr (as_size (pieces ! i))
          \<and> rs i \<noteq> NULL
          \<and> VirtualAllocExNuma_call (as_ptr (pieces ! i)) (as_size (pieces ! i))
               (MEM_RESERVE OR MEM_COMMIT) PAGE_READWRITE
               (topoGetNUMANodeOSIndex (example_env 4096 4096 os_grants_all)
                  (ms_numaNode (request [(10000, 0), (5000, 1)] i))) (rs i)
              \<in> set (drop (length ([] :: event list)) tr'))
      \<and> last tr' = siloPointerMapSubmit_call 2 pieces)"
proof -
  from scenario_run obtain spec' tr' where
    run: "siloMultinodeArrayAlloc (example_env 4096 4096 os_grants_all) 2
            (request [(10000, 0), (5000, 1)]) [] = Some (Inr (0x10000000, spec', tr'))"
    by blast
  have ne: "(0x10000000 :: pointer) \<noteq> NULL" by simp
  from run ne pieces_contiguous [OF run ne] show ?thesis by blast
qed

section \<open>Submission to the registry\<close>

text \<open>
  Claim C8. If a call returns, has attempted to commit a piece, and none of its
  reserve-and-commit calls returned \<open>NULL\<close>, then after the probe and its release it has
  committed one piece per requested piece, its last action is the submission of the list of
  these pieces, in order, each with the address and size of its commit, to
  \<open>siloPointerMapSubmit\<close>, and it returns the address of the first piece of the list, under
  which the registry files the list.
\<close>

theorem all_committed_submits:
  assumes "siloMultinodeArrayAlloc env count spec tr = Some (Inr (p, spec', tr'))"
    and "\<exists>e \<in> set (drop (length tr) tr'). commit_attempt e"
    and "\<forall>e \<in> set (drop (length tr) tr'). \<not> failed_commit e"
  shows "\<exists>pieces rs A'. length pieces = unat count \<and> 0 < unat count
      \<and> (\<forall>i. i < unat count \<longrightarrow> rs i \<noteq> NULL)
      \<and> tr' = tr @ [VirtualAllocExNuma_call NULL A' MEM_RESERVE PAGE_READWRITE 0 p,
                     VirtualFreeEx_call p 0 MEM_RELEASE]
                 @ map (\<lambda>i. VirtualAllocExNuma_call (as_ptr (pieces ! i)) (as_size (pieces ! i))
                              (MEM_RESERVE OR MEM_COMMIT) PAGE_READWRITE
                              (topoGetNUMANodeOSIndex env (ms_numaNode (spec i))) (rs i))
                       [0..<unat count]
                 @ [siloPointerMapSubmit_call count pieces]
      \<and> p = as_ptr (pieces ! 0) \<and> p \<noteq> NULL"
  using assms(1)
proof (cases rule: siloMultinodeArrayAlloc_outcomes)
  case (unresolved T A)
  with assms(2) show ?thesis by simp
next
  case (nothing_granted T)
  with assms(2) show ?thesis by simp
next
  case (probe_failed T A spec1 A')
  with assms(2) show ?thesis by simp
next
  case (commit_failed T A spec1 A' base k rs)
  have "commit_call env spec' base k NULL \<in> set (drop (length tr) tr')"
    unfolding commit_failed(8) drop_own_events by simp
  with assms(3) have "\<not> failed_commit (commit_call env spec' base k NULL)" by blast
  then show ?thesis by simp
next
  case (success T A spec1 A' base rs)
  define pieces where "pieces = map (piece base spec') [0..<unat count]"
  have len: "length pieces = unat count" by (simp add: pieces_def)
  have nth: "\<And>i. i < unat count \<Longrightarrow> pieces ! i = piece base spec' i"
    by (simp add: pieces_def)
  have first: "p = as_ptr (pieces ! 0)"
    using success(5,7) by (simp add: nth piece_def piece_address_0)
  have commits: "map (\<lambda>j. commit_call env spec' base j (rs j)) [0..<unat count]
     = map (\<lambda>i. VirtualAllocExNuma_call (as_ptr (pieces ! i)) (as_size (pieces ! i))
                              (MEM_RESERVE OR MEM_COMMIT) PAGE_READWRITE
                              (topoGetNUMANodeOSIndex env (ms_numaNode (spec i))) (rs i))
                       [0..<unat count]"
  proof (rule map_cong[OF refl])
    fix i assume "i \<in> set [0..<unat count]"
    then have i: "i < unat count" by simp
    note g = granted_pieces[OF success(1,3) i]
    show "commit_call env spec' base i (rs i)
      = VirtualAllocExNuma_call (as_ptr (pieces ! i)) (as_size (pieces ! i))
                              (MEM_RESERVE OR MEM_COMMIT) PAGE_READWRITE
                              (topoGetNUMANodeOSIndex env (ms_numaNode (spec i))) (rs i)"
      using i by (simp add: commit_call_piece[OF g(2)] nth)
  qed
  have t: "tr' = tr @ [VirtualAllocExNuma_call NULL A' MEM_RESERVE PAGE_READWRITE 0 p,
                     VirtualFreeEx_call p 0 MEM_RELEASE]
                 @ map (\<lambda>i. VirtualAllocExNuma_call (as_ptr (pieces ! i)) (as_size (pieces ! i))
                              (MEM_RESERVE OR MEM_COMMIT) PAGE_READWRITE
                              (topoGetNUMANodeOSIndex env (ms_numaNode (spec i))) (rs i))
                       [0..<unat count]
                 @ [siloPointerMapSubmit_call count pieces]"
    unfolding success(8) commits
    by (simp add: probe_call_def release_call_def success(7) pieces_def)
  show ?thesis
    apply (rule exI[of _ pieces], rule exI[of _ rs], rule exI[of _ A'])
    using len success(4,5,6,7) first t by blast
qed

theorem all_committed_submits_witness:
  "\<exists>p spec' tr'.
     siloMultinodeArrayAlloc (example_env 4096 4096 os_grants_all) 2
        (request [(10000, 0), (5000, 1)]) [] = Some (Inr (p, spec', tr'))
   \<and> (\<exists>e \<in> set (drop (length ([] :: event list)) tr'). commit_attempt e)
   \<and> (\<forall>e \<in> set (drop (length ([] :: event list)) tr'). \<not> failed_commit e)
   \<and> (\<exists>pieces rs A'. length pieces = unat (2 :: uint32_t) \<and> 0 < unat (2 :: uint32_t)
      \<and> (\<forall>i. i < unat (2 :: uint32_t) \<longrightarrow> rs i \<noteq> NULL)
      \<and> tr' = [] @ [VirtualAllocExNuma_call NULL A' MEM_RESERVE PAGE_READWRITE 0 p,
                     VirtualFreeEx_call p 0 MEM_RELEASE]
                 @ map (\<lambda>i. VirtualAllocExNuma_call (as_ptr (pieces ! i)) (as_size (pieces ! i))
                              (MEM_RESERVE OR MEM_COMMIT) PAGE_READWRITE
                              (topoGetNUMANodeOSIndex (example_env 4096 4096 os_grants_all)
                                 (ms_numaNode (request [(10000, 0), (5000, 1)] i))) (rs i))
                       [0..<unat (2 :: uint32_t)]
                 @ [siloPointerMapSubmit_call 2 pieces]
      \<and> p = as_ptr (pieces ! 0) \<and> p \<noteq> NULL)"
proof -
  from scenario_run obtain spec' tr' where
    run: "siloMultinodeArrayAlloc (example_env 4096 4096 os_grants_all) 2
            (request [(10000, 0), (5000, 1)]) [] = Some (Inr (0x10000000, spec', tr'))"
    and tr': "tr' = [VirtualAllocExNuma_call NULL 16384 MEM_RESERVE PAGE_READWRITE 0 0x10000000,
          VirtualFreeEx_call 0x10000000 0 MEM_RELEASE,
          VirtualAllocExNuma_call 0x10000000 8192 (MEM_RESERVE OR MEM_COMMIT) PAGE_READWRITE 0 0x10000000,
          VirtualAllocExNuma_call 0x10002000 4096 (MEM_RESERVE OR MEM_COMMIT) PAGE_READWRITE 1 0x10002000,
          siloPointerMapSubmit_call 2
            [\<lparr>as_ptr = 0x10000000, as_size = 8192\<rparr>, \<lparr>as_ptr = 0x10002000, as_size = 4096\<rparr>]]"
    by blast
  have some: "\<exists>e \<in> set (drop (length ([] :: event list)) tr'). commit_attempt e"
    by (simp add: tr')
  have none: "\<forall>e \<in> set (drop (length ([] :: event list)) tr'). \<not> failed_commit e"
    by (simp add: tr' MEM_RESERVE_def MEM_COMMIT_def)
  from run some none all_committed_submits [OF run some none] show ?thesis by blast
qed

end
